theory Spec2Isabelle
  imports Complex_Main
begin

section \<open>Values exchanged with the analysis endpoint\<close>

text \<open>
  The dashboard (\<^verbatim>\<open>src/app.js\<close>, and its older export
  \<^verbatim>\<open>src/frontend_export/script.js\<close>) is a single-threaded, event-driven
  script. Every handler runs to completion, so the program is modelled as a function from
  an event and a state to the next state. JavaScript numbers are modelled as exact reals:
  \<^verbatim>\<open>NaN\<close>, infinities and binary rounding are outside the model, and the
  one place where the export script divides by zero is made explicit with \<open>option\<close>.
\<close>

datatype layer_key = Analytics | Depth | Water_mask | Winter | Summer | Monsoon

record seasonal =
  summer :: real
  monsoon :: real
  winter :: real

text \<open>
  The parsed JSON body of \<^verbatim>\<open>POST /api/analyze\<close>. A field that may be
  missing is an \<open>option\<close>; \<^verbatim>\<open>data.layers\<close> is an object
  indexed by layer key, taken to be present as the data model has it.
\<close>

record analysis_result =
  error :: "string option"
  area :: real
  volume :: real
  avg_elevation :: real
  max_volume :: "real option"
  layers :: "layer_key \<rightharpoonup> string"
  seasonal :: "seasonal option"

text \<open>
  What \<^verbatim>\<open>await fetch(...)\<close> followed by \<^verbatim>\<open>await response.json()\<close>
  can deliver: the fetch rejects (network failure, with the error's message), or a response
  arrives with its \<^verbatim>\<open>ok\<close> flag, its \<^verbatim>\<open>statusText\<close>
  and a body that either fails to parse (with the error's message) or parses.
\<close>

datatype response =
  Rejected string
| Replied bool string "string + analysis_result"

section \<open>Fill percentage (updateMetrics)\<close>

text \<open>\<^verbatim>\<open>Math.round\<close>: the nearest integer, a tie going up.\<close>

definition Math_round :: "real \<Rightarrow> int" where
  "Math_round x = \<lfloor>x + 1 / 2\<rfloor>"

text \<open>
  \<^verbatim>\<open>const capacity = data.max_volume > 0 ? data.max_volume : data.volume * 1.5;\<close>
  A missing \<^verbatim>\<open>max_volume\<close> is \<^verbatim>\<open>undefined\<close>, and
  \<^verbatim>\<open>undefined > 0\<close> is false.
\<close>

definition capacity :: "analysis_result \<Rightarrow> real" where
  "capacity d =
     (case max_volume d of
        Some m \<Rightarrow> if m > 0 then m else volume d * 1.5
      | None \<Rightarrow> volume d * 1.5)"

text \<open>
  \<^verbatim>\<open>const fillPct = capacity > 0 ? Math.min(100, Math.round((data.volume / capacity) * 100)) : 0;\<close>
\<close>

definition fillPct :: "analysis_result \<Rightarrow> int" where
  "fillPct d =
     (if capacity d > 0
      then min 100 (Math_round ((volume d / capacity d) * 100))
      else 0)"

text \<open>The three colour classes of the fill bar.\<close>

datatype fill_class = Bg_red | Bg_blue | Bg_cyan

definition fillBar_className :: "int \<Rightarrow> fill_class" where
  "fillBar_className p = (if p < 30 then Bg_red else if p > 80 then Bg_blue else Bg_cyan)"

text \<open>
  The export script: \<^verbatim>\<open>const capacity = data.max_volume || data.volume * 1.5;\<close>
  (\<^verbatim>\<open>||\<close> takes the right operand when the left one is missing or zero) and
  \<^verbatim>\<open>Math.min(100, Math.round((data.volume / capacity) * 100))\<close> with no test of
  the capacity. A zero capacity arises only from a zero volume, and \<^verbatim>\<open>0 / 0\<close>
  is \<^verbatim>\<open>NaN\<close>, which is the value \<open>None\<close> here.
\<close>

definition capacity_export :: "analysis_result \<Rightarrow> real" where
  "capacity_export d =
     (case max_volume d of
        Some m \<Rightarrow> if m \<noteq> 0 then m else volume d * 1.5
      | None \<Rightarrow> volume d * 1.5)"

definition fillPct_export :: "analysis_result \<Rightarrow> int option" where
  "fillPct_export d =
     (if capacity_export d = 0 then None
      else Some (min 100 (Math_round ((volume d / capacity_export d) * 100))))"



section \<open>The page state\<close>

datatype mode = Click | Draw

datatype toast_type = T_info | T_success | T_error

text \<open>
  A Leaflet layer group keeps its layers in an object indexed by the layer's stamp (a
  fresh number per layer object): adding a layer that is already in the group changes
  nothing, removing goes by stamp. The group is the list of its entries in insertion order.
  A tile layer remembers, as a ghost field, the key of the toggle that made it.
\<close>

record tile_layer =
  tile_url :: string
  tile_opacity :: real
  tile_zIndex :: "nat option"
  tile_key :: layer_key

datatype map_layer = Marker real real | TileLayer tile_layer

type_synonym layer_group = "(nat \<times> map_layer) list"

fun addLayer :: "nat \<Rightarrow> map_layer \<Rightarrow> layer_group \<Rightarrow> layer_group" where
  "addLayer i l [] = [(i, l)]"
| "addLayer i l (p # ps) = (if fst p = i then (i, l) # ps else p # addLayer i l ps)"

definition removeLayer :: "nat \<Rightarrow> layer_group \<Rightarrow> layer_group" where
  "removeLayer i g = filter (\<lambda>p. fst p \<noteq> i) g"

text \<open>
  One child of the \<^verbatim>\<open>layerControl\<close> container, with what the closure of
  \<^verbatim>\<open>createToggle\<close> holds: the key, the URL \<^verbatim>\<open>layers[key]\<close>
  and the variable \<^verbatim>\<open>activeLayer\<close> (the stamp of the layer, or
  \<open>None\<close> for \<^verbatim>\<open>null\<close>).
\<close>

record toggle =
  t_key :: layer_key
  t_label :: string
  t_color :: string
  t_url :: string
  t_checked :: bool
  activeLayer :: "nat option"

text \<open>
  A toggle of the export script, whose closure holds one layer made when the toggle is.
\<close>

record toggle_export =
  x_id :: string
  x_name :: string
  x_color :: string
  x_checked :: bool
  x_stamp :: nat
  x_layer :: tile_layer

datatype metric_el = MetricArea | MetricVolume

text \<open>The callbacks handed to \<^verbatim>\<open>setTimeout\<close> and not yet run.\<close>

datatype timer = Hide_overlay | Hide_toast | Unhighlight metric_el | Sim_click

text \<open>
  A request sent by \<^verbatim>\<open>fetch\<close> and not yet settled, with its payload and
  the abort signal passed to it (the number of its controller), if any.
\<close>

record request =
  req_id :: nat
  req_lat :: real
  req_lng :: real
  req_signal :: "nat option"

text \<open>What is written into the fill percentage: a number, or \<^verbatim>\<open>NaN\<close>.\<close>

datatype pct = Pct int | NaN

text \<open>
  The global \<^verbatim>\<open>state\<close> object, the module variables
  \<^verbatim>\<open>scanController\<close> and \<^verbatim>\<open>overlayLayerGroup\<close>, the parts
  of the document the script writes, and the pending requests and timers. A text that the
  script has not written yet is \<open>None\<close>. Class names that only style (button
  colours, shadows) are left out; the failed marking \<^verbatim>\<open>text-red-500\<close>,
  the toast's visibility and the number highlight are kept. Coordinates are shown with
  five decimals; the shown value is kept as the number. The map's viewport is left out.
\<close>

record state =
  mode :: mode
  currentLat :: real
  currentLng :: real
  currentArea :: real
  currentVol :: real
  isScanning :: bool
  state_layers :: "layer_key \<rightharpoonup> string"
  layerGroup :: layer_group
  drawnItems :: "(real \<times> real) list"
  drawControl_shown :: bool
  scanController :: "nat option"
  aborted :: "nat list"
  overlayLayerGroup :: "layer_group option"
  overlay_display :: bool
  scan_status :: string
  scan_status_red :: bool
  dispLat :: "real option"
  dispLon :: "real option"
  metricArea :: "real option"
  metricVolume :: "real option"
  metricElev :: "real option"
  highlighted :: "metric_el list"
  fillBar_width :: "pct option"
  fillPct_text :: "pct option"
  fillBar_class :: "fill_class option"
  toast_text :: string
  toast_shown :: bool
  toast_log :: "(toast_type \<times> string) list"
  trend_data :: "real option list"
  seasonal_data :: "real list"
  layerControl :: "toggle list"
  layerControl_export :: "toggle_export list"
  layerControlPanel_hidden :: bool
  next_stamp :: nat
  next_req :: nat
  pending :: "request list"
  timers :: "timer list"

section \<open>The dashboard script (app.js)\<close>

subsection \<open>Helpers\<close>

text \<open>
  \<^verbatim>\<open>showToast(msg, type)\<close>: logs the line, writes the text, shows the toast
  and schedules its hiding. The toast element is taken to exist.
\<close>

definition showToast :: "string \<Rightarrow> toast_type \<Rightarrow> state \<Rightarrow> state" where
  "showToast msg ty s =
     s\<lparr>toast_log := (ty, msg) # toast_log s,
       toast_text := msg,
       toast_shown := True,
       timers := timers s @ [Hide_toast]\<rparr>"

text \<open>\<^verbatim>\<open>animateValue(id, value, suffix)\<close> for the two elements it is called on.\<close>

definition animateValue :: "metric_el \<Rightarrow> real \<Rightarrow> state \<Rightarrow> state" where
  "animateValue el v s =
     (let s1 = (case el of
                  MetricArea \<Rightarrow> s\<lparr>metricArea := Some v\<rparr>
                | MetricVolume \<Rightarrow> s\<lparr>metricVolume := Some v\<rparr>)
      in s1\<lparr>highlighted := el # highlighted s1,
             timers := timers s1 @ [Unhighlight el]\<rparr>)"

subsection \<open>updateMetrics, updateCharts\<close>

definition updateMetrics :: "analysis_result \<Rightarrow> state \<Rightarrow> state" where
  "updateMetrics d s =
     (let s1 = animateValue MetricArea (area d) s;
          s2 = animateValue MetricVolume (volume d) s1;
          p = fillPct d
      in s2\<lparr>fillBar_width := Some (Pct p),
             fillPct_text := Some (Pct p),
             fillBar_class := Some (fillBar_className p),
             metricElev := Some (avg_elevation d)\<rparr>)"

text \<open>
  \<^verbatim>\<open>Array.from({ length: 12 }, () => base * (0.8 + Math.random() * 0.4))\<close>:
  \<open>rnd i\<close> is the value of the \<open>i\<close>-th call of \<^verbatim>\<open>Math.random\<close>.
  \<^verbatim>\<open>parseFloat\<close> of a number is that number.
\<close>

definition trend_points :: "real \<Rightarrow> (nat \<Rightarrow> real) \<Rightarrow> real list" where
  "trend_points base rnd = map (\<lambda>i. base * (0.8 + rnd i * 0.4)) [0..<12]"

definition updateCharts :: "real \<Rightarrow> seasonal option \<Rightarrow> (nat \<Rightarrow> real) \<Rightarrow> state \<Rightarrow> state" where
  "updateCharts vol seas rnd s =
     (let s1 = s\<lparr>trend_data := map Some (trend_points vol rnd)\<rparr>
      in case seas of
           Some q \<Rightarrow> s1\<lparr>seasonal_data := [summer q, monsoon q, winter q]\<rparr>
         | None \<Rightarrow> s1)"

subsection \<open>The layer control\<close>

text \<open>
  \<^verbatim>\<open>toggleLayer(isChecked)\<close> of one toggle: it reads and writes the toggle's
  \<^verbatim>\<open>activeLayer\<close> and the group \<^verbatim>\<open>overlayLayerGroup\<close> of the
  moment of the call. With no group (\<^verbatim>\<open>null\<close>) the call throws before it
  changes anything.
\<close>

definition toggleLayer :: "bool \<Rightarrow> toggle \<Rightarrow> state \<Rightarrow> toggle \<times> state" where
  "toggleLayer isChecked t s =
     (case overlayLayerGroup s of
        None \<Rightarrow> (t, s)
      | Some g \<Rightarrow>
          if isChecked then
            let g1 = (case activeLayer t of Some a \<Rightarrow> removeLayer a g | None \<Rightarrow> g);
                zIndex = (if t_key t = Analytics then 10 else 5);
                i = next_stamp s;
                l = TileLayer \<lparr>tile_url = t_url t, tile_opacity = 0.9,
                      tile_zIndex = Some zIndex, tile_key = t_key t\<rparr>
            in (t\<lparr>activeLayer := Some i\<rparr>,
                s\<lparr>overlayLayerGroup := Some (addLayer i l g1), next_stamp := Suc i\<rparr>)
          else
            (case activeLayer t of
               Some a \<Rightarrow> (t\<lparr>activeLayer := None\<rparr>,
                          s\<lparr>overlayLayerGroup := Some (removeLayer a g)\<rparr>)
             | None \<Rightarrow> (t, s)))"

text \<open>
  \<^verbatim>\<open>createToggle(key, label, color, isDefault)\<close> inside
  \<^verbatim>\<open>updateLayerControl(layers)\<close>: nothing for a key whose URL is missing or
  empty; otherwise the toggle, activated at once when it is a default, is appended to the
  container.
\<close>

definition createToggle ::
  "(layer_key \<rightharpoonup> string) \<Rightarrow> layer_key \<Rightarrow> string \<Rightarrow> string \<Rightarrow> bool \<Rightarrow> state \<Rightarrow> state" where
  "createToggle ls key label color isDefault s =
     (case ls key of
        None \<Rightarrow> s
      | Some url \<Rightarrow>
          if url = [] then s
          else
            let t = \<lparr>t_key = key, t_label = label, t_color = color, t_url = url,
                      t_checked = isDefault, activeLayer = None\<rparr>;
                (t1, s1) = (if isDefault then toggleLayer True t s else (t, s))
            in s1\<lparr>layerControl := layerControl s1 @ [t1]\<rparr>)"

definition updateLayerControl :: "(layer_key \<rightharpoonup> string) \<Rightarrow> state \<Rightarrow> state" where
  "updateLayerControl ls s =
     (let s0 = s\<lparr>overlayLayerGroup := Some [], layerControl := []\<rparr>;
          s1 = createToggle ls Analytics ''Depth Contours'' ''#ffffff'' True s0;
          s2 = createToggle ls Depth ''Bathymetry'' ''#0077b6'' True s1;
          s3 = createToggle ls Water_mask ''Water Extent'' ''#00FFFF'' False s2;
          s4 = createToggle ls Winter ''Winter Spread'' ''#0891b2'' False s3;
          s5 = createToggle ls Summer ''Summer Spread'' ''#fb923c'' False s4;
          s6 = createToggle ls Monsoon ''Monsoon Spread'' ''#16a34a'' False s5
      in s6\<lparr>layerControlPanel_hidden := False\<rparr>)"

text \<open>
  The \<^verbatim>\<open>change\<close> listener of the checkbox of key \<open>k\<close>: the first toggle
  of the container with that key runs its \<^verbatim>\<open>toggleLayer\<close> with the
  checkbox's new value. A key without a toggle has no checkbox.
\<close>

fun change_toggle :: "layer_key \<Rightarrow> bool \<Rightarrow> toggle list \<Rightarrow> state \<Rightarrow> toggle list \<times> state" where
  "change_toggle k c [] s = ([], s)"
| "change_toggle k c (t # ts) s =
     (if t_key t = k
      then (let (t1, s1) = toggleLayer c (t\<lparr>t_checked := c\<rparr>) s in (t1 # ts, s1))
      else (let (ts1, s1) = change_toggle k c ts s in (t # ts1, s1)))"

definition on_toggle_change :: "layer_key \<Rightarrow> bool \<Rightarrow> state \<Rightarrow> state" where
  "on_toggle_change k c s =
     (let (ts, s1) = change_toggle k c (layerControl s) s
      in s1\<lparr>layerControl := ts\<rparr>)"

subsection \<open>The scan lifecycle\<close>

text \<open>
  \<^verbatim>\<open>app.js\<close> declares \<^verbatim>\<open>async function startScanning\<close> twice
  at the top level (lines 165 and 353). In a script the later declaration replaces the
  earlier one, so every call runs the second: it is \<open>startScanning\<close> below; the
  first, which no call reaches, is \<open>startScanning_first\<close>.

  An async function is split at its \<^verbatim>\<open>await\<close>: the part up to the
  \<^verbatim>\<open>fetch\<close> runs in the handler that calls it and leaves a pending request;
  the rest runs when the request settles. Nothing of the state is read or written between
  \<^verbatim>\<open>await fetch\<close> and \<^verbatim>\<open>await response.json()\<close>, so the two
  are one settlement.
\<close>

definition startScanning :: "state \<Rightarrow> state" where
  "startScanning s =
     s\<lparr>isScanning := True,
       overlay_display := True,
       scan_status := ''Analyzing Satellite Data...'',
       pending := pending s @
         [\<lparr>req_id = next_req s, req_lat = currentLat s, req_lng = currentLng s,
           req_signal = None\<rparr>],
       next_req := Suc (next_req s)\<rparr>"

text \<open>
  What the \<^verbatim>\<open>try\<close> block throws, as the message of the error, or the body
  it goes on with: \<^verbatim>\<open>if (!response.ok) throw new Error("Analysis Service Failed")\<close>,
  then the parse, then \<^verbatim>\<open>if (data.error) throw new Error(data.error)\<close>
  (an empty string is not an error).
\<close>

definition checked_body :: "response \<Rightarrow> string + analysis_result" where
  "checked_body resp =
     (case resp of
        Rejected m \<Rightarrow> Inl m
      | Replied ok statusText body \<Rightarrow>
          if \<not> ok then Inl ''Analysis Service Failed''
          else (case body of
                  Inl m \<Rightarrow> Inl m
                | Inr d \<Rightarrow>
                    (case error d of
                       None \<Rightarrow> Inr d
                     | Some e \<Rightarrow> if e = [] then Inr d else Inl e)))"

text \<open>The success branch, up to the end of the \<^verbatim>\<open>try\<close> block.\<close>

definition apply_success :: "analysis_result \<Rightarrow> (nat \<Rightarrow> real) \<Rightarrow> state \<Rightarrow> state" where
  "apply_success d rnd s =
     (let s1 = s\<lparr>currentArea := area d, currentVol := volume d, state_layers := layers d\<rparr>;
          s2 = updateMetrics d s1;
          s3 = updateCharts (volume d) (seasonal d) rnd s2;
          s4 = updateLayerControl (layers d) s3;
          s5 = s4\<lparr>scan_status := ''Complete.''\<rparr>
      in showToast ''Analysis Complete.'' T_success s5)"

text \<open>
  The \<^verbatim>\<open>catch\<close> block of the second declaration:
  \<^verbatim>\<open>const errMsg = err.message || "Unknown Error"\<close>.
\<close>

definition report_failure :: "string \<Rightarrow> state \<Rightarrow> state" where
  "report_failure m s =
     (let errMsg = (if m = [] then ''Unknown Error'' else m);
          s1 = showToast (''Analysis Failed: '' @ errMsg) T_error s
      in s1\<lparr>scan_status := ''Error.'', scan_status_red := True\<rparr>)"

text \<open>
  The rest of the second declaration after the \<^verbatim>\<open>await\<close>. It passes no
  signal to \<^verbatim>\<open>fetch\<close>, so its request settles with what the server
  answers. The \<^verbatim>\<open>finally\<close> block schedules the hiding of the overlay.
\<close>

definition startScanning_settled :: "response \<Rightarrow> (nat \<Rightarrow> real) \<Rightarrow> state \<Rightarrow> state" where
  "startScanning_settled resp rnd s =
     (let s1 = (case checked_body resp of
                  Inr d \<Rightarrow> apply_success d rnd s
                | Inl m \<Rightarrow> report_failure m s)
      in s1\<lparr>timers := timers s1 @ [Hide_overlay]\<rparr>)"

text \<open>\<^verbatim>\<open>cancelScanning()\<close>.\<close>

definition cancelScanning :: "state \<Rightarrow> state" where
  "cancelScanning s =
     (let s1 = (case scanController s of
                  Some c \<Rightarrow> s\<lparr>aborted := c # aborted s, scanController := None\<rparr>
                | None \<Rightarrow> s);
          s2 = s1\<lparr>overlay_display := False, isScanning := False, layerGroup := []\<rparr>
      in showToast ''Cancelled.'' T_info s2)"

text \<open>
  \<^verbatim>\<open>onMapClick(e)\<close> with \<^verbatim>\<open>e.latlng\<close> and
  \<^verbatim>\<open>e.isDraw\<close> (missing on a real click, so false).
\<close>

definition onMapClick :: "real \<Rightarrow> real \<Rightarrow> bool \<Rightarrow> state \<Rightarrow> state" where
  "onMapClick lat lng isDraw s =
     (if isScanning s then s
      else if mode s = Draw \<and> \<not> isDraw then s
      else
        let s1 = s\<lparr>currentLat := lat, currentLng := lng,
                   dispLat := Some lat, dispLon := Some lng,
                   layerGroup := addLayer (next_stamp s) (Marker lat lng) [],
                   next_stamp := Suc (next_stamp s)\<rparr>
        in startScanning s1)"

text \<open>
  The listener of \<^verbatim>\<open>L.Draw.Event.CREATED\<close>: the drawn shape, kept as the
  centre of its bounds, replaces the drawn items, and the click handler runs on the centre.
\<close>

definition onDrawCreated :: "real \<Rightarrow> real \<Rightarrow> state \<Rightarrow> state" where
  "onDrawCreated lat lng s = onMapClick lat lng True (s\<lparr>drawnItems := [(lat, lng)]\<rparr>)"

definition setMode :: "mode \<Rightarrow> state \<Rightarrow> state" where
  "setMode m s =
     (let s1 = s\<lparr>mode := m\<rparr>
      in if m = Draw
         then showToast ''Draw Mode: Create a polygon to analyze the area.'' T_info
                (s1\<lparr>drawControl_shown := True\<rparr>)
         else showToast ''Click Mode: Click anywhere to analyze.'' T_info
                (s1\<lparr>drawControl_shown := False\<rparr>))"

text \<open>
  \<^verbatim>\<open>triggerAI()\<close> schedules a simulated click; its coordinates are computed
  when the timer runs: \<^verbatim>\<open>(state.currentLat || 12.4244) + 0.005\<close>.
\<close>

definition triggerAI :: "state \<Rightarrow> state" where
  "triggerAI s = s\<lparr>timers := timers s @ [Sim_click]\<rparr>"

definition run_timer :: "timer \<Rightarrow> state \<Rightarrow> state" where
  "run_timer t s =
     (case t of
        Hide_overlay \<Rightarrow> s\<lparr>overlay_display := False, isScanning := False\<rparr>
      | Hide_toast \<Rightarrow> s\<lparr>toast_shown := False\<rparr>
      | Unhighlight el \<Rightarrow> s\<lparr>highlighted := filter (\<lambda>e. e \<noteq> el) (highlighted s)\<rparr>
      | Sim_click \<Rightarrow>
          onMapClick ((if currentLat s = 0 then 12.4244 else currentLat s) + 0.005)
                     ((if currentLng s = 0 then 76.5761 else currentLng s) + 0.005) False s)"

subsection \<open>The first declaration of startScanning\<close>

text \<open>
  The declaration at line 165, which the one at line 353 replaces. It aborts the previous
  controller, makes a new one and passes its signal to \<^verbatim>\<open>fetch\<close>. A
  controller is numbered as the request it is made for.
\<close>

definition startScanning_first :: "state \<Rightarrow> state" where
  "startScanning_first s =
     (let s1 = s\<lparr>isScanning := True, overlay_display := True,
                   scan_status := ''Analyzing Satellite Data...'',
                   scan_status_red := False\<rparr>;
          s2 = (case scanController s1 of
                  Some c \<Rightarrow> s1\<lparr>aborted := c # aborted s1\<rparr>
                | None \<Rightarrow> s1);
          c = next_req s2
      in s2\<lparr>scanController := Some c,
             pending := pending s2 @
               [\<lparr>req_id = c, req_lat = currentLat s2, req_lng = currentLng s2,
                 req_signal = Some c\<rparr>],
             next_req := Suc c\<rparr>)"

text \<open>
  How a settlement reaches the function: a request whose signal has been aborted rejects
  with an \<^verbatim>\<open>AbortError\<close>, whatever the server did.
\<close>

datatype outcome = Abort_error | Settled response

definition fetch_outcome :: "state \<Rightarrow> request \<Rightarrow> response \<Rightarrow> outcome" where
  "fetch_outcome s rq resp =
     (case req_signal rq of
        Some c \<Rightarrow> if c \<in> set (aborted s) then Abort_error else Settled resp
      | None \<Rightarrow> Settled resp)"

text \<open>
  The rest of the first declaration: success applies the result and schedules the hiding
  of the overlay; an \<^verbatim>\<open>AbortError\<close> only shows an informational toast; any
  other error is reported as a failure. Its \<^verbatim>\<open>finally\<close> block is empty.
\<close>

definition startScanning_first_settled :: "outcome \<Rightarrow> (nat \<Rightarrow> real) \<Rightarrow> state \<Rightarrow> state" where
  "startScanning_first_settled out rnd s =
     (case out of
        Abort_error \<Rightarrow> showToast ''Analysis Cancelled'' T_info s
      | Settled resp \<Rightarrow>
          (case checked_body resp of
             Inr d \<Rightarrow> (let s1 = apply_success d rnd s
                       in s1\<lparr>timers := timers s1 @ [Hide_overlay]\<rparr>)
           | Inl m \<Rightarrow> report_failure m s))"

subsection \<open>Events\<close>

text \<open>
  What can happen to the page: the user's gestures, the settlement of a pending request
  (by its number, with the server's answer and the random draws the charts will take), and
  the running of a pending timer (by its position). Timers may run in any order, which
  includes the order of their delays.
\<close>

datatype event =
  MapClick real real
| DrawCreated real real
| CancelClicked
| ModeClicked mode
| AIClicked
| ToggleChanged layer_key bool
| FetchSettled nat response "nat \<Rightarrow> real"
| TimerFired nat

definition step :: "event \<Rightarrow> state \<Rightarrow> state" where
  "step ev s =
     (case ev of
        MapClick lat lng \<Rightarrow> onMapClick lat lng False s
      | DrawCreated lat lng \<Rightarrow> onDrawCreated lat lng s
      | CancelClicked \<Rightarrow> cancelScanning s
      | ModeClicked m \<Rightarrow> setMode m s
      | AIClicked \<Rightarrow> triggerAI s
      | ToggleChanged k c \<Rightarrow> on_toggle_change k c s
      | FetchSettled rid resp rnd \<Rightarrow>
          (case find (\<lambda>r. req_id r = rid) (pending s) of
             None \<Rightarrow> s
           | Some rq \<Rightarrow>
               startScanning_settled resp rnd
                 (s\<lparr>pending := filter (\<lambda>r. req_id r \<noteq> rid) (pending s)\<rparr>))
      | TimerFired n \<Rightarrow>
          (if n < length (timers s)
           then run_timer (timers s ! n) (s\<lparr>timers := take n (timers s) @ drop (Suc n) (timers s)\<rparr>)
           else s))"

fun run :: "event list \<Rightarrow> state \<Rightarrow> state" where
  "run [] s = s"
| "run (ev # evs) s = run evs (step ev s)"

text \<open>
  The state once \<^verbatim>\<open>DOMContentLoaded\<close> has run \<^verbatim>\<open>initMap\<close>,
  \<^verbatim>\<open>initCharts\<close> and \<^verbatim>\<open>setMode('click')\<close>, on a page whose
  overlay starts hidden and whose status text starts empty.
\<close>

definition blank :: state where
  "blank =
     \<lparr>mode = Click, currentLat = 0, currentLng = 0, currentArea = 0, currentVol = 0,
      isScanning = False, state_layers = Map.empty, layerGroup = [], drawnItems = [],
      drawControl_shown = False, scanController = None, aborted = [],
      overlayLayerGroup = None, overlay_display = False, scan_status = [],
      scan_status_red = False, dispLat = None, dispLon = None, metricArea = None,
      metricVolume = None, metricElev = None, highlighted = [], fillBar_width = None,
      fillPct_text = None, fillBar_class = None, toast_text = [], toast_shown = False,
      toast_log = [], trend_data = replicate 12 None, seasonal_data = [0, 0, 0],
      layerControl = [], layerControl_export = [], layerControlPanel_hidden = True,
      next_stamp = 0, next_req = 0, pending = [], timers = []\<rparr>"

definition init :: state where
  "init = setMode Click blank"

section \<open>The export script (frontend_export/script.js)\<close>

text \<open>
  The older copy of the dashboard. It shares the shape of the state; it has no charts, no
  abort controller, and its overlays live in \<^verbatim>\<open>state.layerGroup\<close> beside
  the marker. Its \<^verbatim>\<open>showToast\<close> does not use the type.
\<close>

definition showToast_export :: "string \<Rightarrow> toast_type \<Rightarrow> state \<Rightarrow> state" where
  "showToast_export msg ty s =
     s\<lparr>toast_text := msg, toast_shown := True, timers := timers s @ [Hide_toast]\<rparr>"

text \<open>
  A comparison with \<^verbatim>\<open>NaN\<close> is false, so \<^verbatim>\<open>NaN\<close> gets the
  last class.
\<close>

definition updateMetrics_export :: "analysis_result \<Rightarrow> state \<Rightarrow> state" where
  "updateMetrics_export d s =
     (let p = (case fillPct_export d of Some n \<Rightarrow> Pct n | None \<Rightarrow> NaN)
      in s\<lparr>metricArea := Some (area d),
           metricVolume := Some (volume d),
           fillBar_width := Some p,
           fillPct_text := Some p,
           fillBar_class := Some (case p of Pct n \<Rightarrow> fillBar_className n | NaN \<Rightarrow> Bg_cyan),
           metricElev := Some (avg_elevation d)\<rparr>)"

text \<open>
  \<^verbatim>\<open>addLayerToggle(id, name, url, color)\<close> with the test at its call
  (\<^verbatim>\<open>if (layers.water_mask) ...\<close>): the layer is made once, with the toggle.
\<close>

definition addLayerToggle ::
  "layer_key \<Rightarrow> string \<Rightarrow> string \<Rightarrow> (layer_key \<rightharpoonup> string) \<Rightarrow> string \<Rightarrow> state \<Rightarrow> state" where
  "addLayerToggle key ident name ls color s =
     (case ls key of
        None \<Rightarrow> s
      | Some url \<Rightarrow>
          if url = [] then s
          else
            s\<lparr>layerControl_export := layerControl_export s @
                 [\<lparr>x_id = ident, x_name = name, x_color = color, x_checked = False,
                   x_stamp = next_stamp s,
                   x_layer = \<lparr>tile_url = url, tile_opacity = 0.8, tile_zIndex = None,
                               tile_key = key\<rparr>\<rparr>],
               next_stamp := Suc (next_stamp s)\<rparr>)"

definition updateLayers :: "(layer_key \<rightharpoonup> string) \<Rightarrow> state \<Rightarrow> state" where
  "updateLayers ls s =
     (let s0 = s\<lparr>layerGroup := addLayer (next_stamp s) (Marker (currentLat s) (currentLng s)) [],
                  next_stamp := Suc (next_stamp s),
                  layerControl_export := []\<rparr>;
          s1 = addLayerToggle Water_mask ''water'' ''Current Water Extent'' ls ''#00FFFF'' s0;
          s2 = addLayerToggle Depth ''depth'' ''Bathymetry (Depth)'' ls ''#08519c'' s1;
          s3 = addLayerToggle Analytics ''contour'' ''Depth Contours'' ls ''#ffffff'' s2;
          s4 = addLayerToggle Winter ''winter'' ''Winter Extent'' ls ''#0891b2'' s3;
          s5 = addLayerToggle Summer ''summer'' ''Summer Extent'' ls ''#ea580c'' s4;
          s6 = addLayerToggle Monsoon ''monsoon'' ''Monsoon Extent'' ls ''#16a34a'' s5
      in s6\<lparr>layerControlPanel_hidden := False\<rparr>)"

text \<open>The \<^verbatim>\<open>change\<close> listener of a toggle of the export script.\<close>

definition toggle_listener_export :: "bool \<Rightarrow> toggle_export \<Rightarrow> layer_group \<Rightarrow> layer_group" where
  "toggle_listener_export c t g =
     (if c then addLayer (x_stamp t) (TileLayer (x_layer t)) g
      else removeLayer (x_stamp t) g)"

fun change_toggle_export ::
  "layer_key \<Rightarrow> bool \<Rightarrow> toggle_export list \<Rightarrow> layer_group \<Rightarrow> toggle_export list \<times> layer_group" where
  "change_toggle_export k c [] g = ([], g)"
| "change_toggle_export k c (t # ts) g =
     (if tile_key (x_layer t) = k
      then (t\<lparr>x_checked := c\<rparr> # ts, toggle_listener_export c t g)
      else (let (ts1, g1) = change_toggle_export k c ts g in (t # ts1, g1)))"

definition on_toggle_change_export :: "layer_key \<Rightarrow> bool \<Rightarrow> state \<Rightarrow> state" where
  "on_toggle_change_export k c s =
     (let (ts, g) = change_toggle_export k c (layerControl_export s) (layerGroup s)
      in s\<lparr>layerControl_export := ts, layerGroup := g\<rparr>)"

text \<open>\<^verbatim>\<open>startAnalysis()\<close> up to its \<^verbatim>\<open>await fetch\<close>.\<close>

definition startAnalysis :: "state \<Rightarrow> state" where
  "startAnalysis s =
     s\<lparr>isScanning := True,
       overlay_display := True,
       scan_status := ''Acquiring Multispectral Imagery...'',
       pending := pending s @
         [\<lparr>req_id = next_req s, req_lat = currentLat s, req_lng = currentLng s,
           req_signal = None\<rparr>],
       next_req := Suc (next_req s)\<rparr>"

text \<open>
  What its \<^verbatim>\<open>try\<close> block throws or goes on with:
  \<^verbatim>\<open>throw new Error(`Analysis Failed: ${response.statusText}`)\<close> when the
  response is not ok, \<^verbatim>\<open>throw new Error(data.error)\<close> on an error field.
\<close>

definition checked_body_export :: "response \<Rightarrow> string + analysis_result" where
  "checked_body_export resp =
     (case resp of
        Rejected m \<Rightarrow> Inl m
      | Replied ok statusText body \<Rightarrow>
          if \<not> ok then Inl (''Analysis Failed: '' @ statusText)
          else (case body of
                  Inl m \<Rightarrow> Inl m
                | Inr d \<Rightarrow>
                    (case error d of
                       None \<Rightarrow> Inr d
                     | Some e \<Rightarrow> if e = [] then Inr d else Inl e)))"

text \<open>
  The rest of \<^verbatim>\<open>startAnalysis\<close>. The status text written between the two
  awaits (\<^verbatim>\<open>"Processing GEE Algorithms..."\<close>) is overwritten on every path
  before the function ends, except when the fetch itself rejects and it is never written.
\<close>

definition startAnalysis_settled :: "response \<Rightarrow> state \<Rightarrow> state" where
  "startAnalysis_settled resp s =
     (let s1 = (case checked_body_export resp of
                  Inr d \<Rightarrow>
                    showToast_export ''Analysis Complete'' T_success
                      (updateLayers (layers d)
                        (updateMetrics_export d (s\<lparr>scan_status := ''Finalizing Report...''\<rparr>)))
                | Inl m \<Rightarrow>
                    (showToast_export (''Error: '' @ m) T_error s)\<lparr>scan_status := ''ERROR''\<rparr>)
      in s1\<lparr>timers := timers s1 @ [Hide_overlay]\<rparr>)"

definition cancelScanning_export :: "state \<Rightarrow> state" where
  "cancelScanning_export s =
     showToast_export ''Cancelled.'' T_info (s\<lparr>overlay_display := False, isScanning := False\<rparr>)"

definition onMapClick_export :: "real \<Rightarrow> real \<Rightarrow> bool \<Rightarrow> state \<Rightarrow> state" where
  "onMapClick_export lat lng isDraw s =
     (if isScanning s then s
      else if mode s = Draw \<and> \<not> isDraw then s
      else
        let s1 = s\<lparr>currentLat := lat, currentLng := lng,
                   dispLat := Some lat, dispLon := Some lng,
                   layerGroup := addLayer (next_stamp s) (Marker lat lng) [],
                   next_stamp := Suc (next_stamp s)\<rparr>
        in startAnalysis s1)"

definition onDrawCreated_export :: "real \<Rightarrow> real \<Rightarrow> state \<Rightarrow> state" where
  "onDrawCreated_export lat lng s =
     onMapClick_export lat lng True (s\<lparr>drawnItems := [(lat, lng)]\<rparr>)"

definition setMode_export :: "mode \<Rightarrow> state \<Rightarrow> state" where
  "setMode_export m s =
     (let s1 = s\<lparr>mode := m\<rparr>
      in if m = Draw
         then showToast_export ''Draw Mode: Create a polygon to scan.'' T_info
                (s1\<lparr>drawControl_shown := True\<rparr>)
         else showToast_export ''Click Mode: Click to target location.'' T_info
                (s1\<lparr>drawControl_shown := False\<rparr>))"

text \<open>The export script schedules only the hiding of the overlay and of the toast.\<close>

definition run_timer_export :: "timer \<Rightarrow> state \<Rightarrow> state" where
  "run_timer_export t s =
     (case t of
        Hide_overlay \<Rightarrow> s\<lparr>overlay_display := False, isScanning := False\<rparr>
      | Hide_toast \<Rightarrow> s\<lparr>toast_shown := False\<rparr>
      | Unhighlight el \<Rightarrow> s
      | Sim_click \<Rightarrow> s)"

definition step_export :: "event \<Rightarrow> state \<Rightarrow> state" where
  "step_export ev s =
     (case ev of
        MapClick lat lng \<Rightarrow> onMapClick_export lat lng False s
      | DrawCreated lat lng \<Rightarrow> onDrawCreated_export lat lng s
      | CancelClicked \<Rightarrow> cancelScanning_export s
      | ModeClicked m \<Rightarrow> setMode_export m s
      | AIClicked \<Rightarrow> s
      | ToggleChanged k c \<Rightarrow> on_toggle_change_export k c s
      | FetchSettled rid resp rnd \<Rightarrow>
          (case find (\<lambda>r. req_id r = rid) (pending s) of
             None \<Rightarrow> s
           | Some rq \<Rightarrow>
               startAnalysis_settled resp
                 (s\<lparr>pending := filter (\<lambda>r. req_id r \<noteq> rid) (pending s)\<rparr>))
      | TimerFired n \<Rightarrow>
          (if n < length (timers s)
           then run_timer_export (timers s ! n)
                  (s\<lparr>timers := take n (timers s) @ drop (Suc n) (timers s)\<rparr>)
           else s))"

fun run_export :: "event list \<Rightarrow> state \<Rightarrow> state" where
  "run_export [] s = s"
| "run_export (ev # evs) s = run_export evs (step_export ev s)"

definition init_export :: state where
  "init_export = setMode_export Click blank"

section \<open>Observations, invariants and sample data\<close>

text \<open>
  What the user sees of an analysis: the metrics, the two charts and the layer control
  with its overlays.
\<close>

definition displayed ::
  "state \<Rightarrow> real option \<times> real option \<times> real option \<times> pct option \<times> pct option \<times>
     fill_class option \<times> real option list \<times> real list \<times> toggle list \<times>
     layer_group option \<times> bool" where
  "displayed s =
     (metricArea s, metricVolume s, metricElev s, fillBar_width s, fillPct_text s,
      fillBar_class s, trend_data s, seasonal_data s, layerControl s, overlayLayerGroup s,
      layerControlPanel_hidden s)"

text \<open>
  The state with the fields of the layer control blanked: two states that agree on it
  differ in the layer control only.
\<close>

definition outside_layer_control :: "state \<Rightarrow> state" where
  "outside_layer_control s =
     s\<lparr>overlayLayerGroup := None, layerControl := [], next_stamp := 0,
       layerControlPanel_hidden := False\<rparr>"

text \<open>
  Two facts that hold of every state the page reaches: no controller is ever stored (the
  running declaration of \<^verbatim>\<open>startScanning\<close> makes none), and the overlay is
  shown exactly while the flag is set.
\<close>

definition steady :: "state \<Rightarrow> bool" where
  "steady s = (scanController s = None \<and> overlay_display s = isScanning s)"

text \<open>Sample answers of the analysis endpoint, and sample random draws.\<close>

definition result_a :: analysis_result where
  "result_a =
     \<lparr>error = None, area = 3.2, volume = 12.8, avg_elevation = 700,
      max_volume = Some 15.0,
      layers = [Analytics \<mapsto> ''https://tiles/analytics'', Depth \<mapsto> ''https://tiles/depth''],
      seasonal = None\<rparr>"

definition result_b :: analysis_result where
  "result_b =
     \<lparr>error = None, area = 1.1, volume = 4.52, avg_elevation = 650,
      max_volume = None,
      layers = [Water_mask \<mapsto> ''https://tiles/water''],
      seasonal = Some \<lparr>summer = 0.9, monsoon = 1.4, winter = 1.1\<rparr>\<rparr>"


definition ok_a :: response where
  "ok_a = Replied True ''OK'' (Inr result_a)"

definition ok_b :: response where
  "ok_b = Replied True ''OK'' (Inr result_b)"

definition half_draws :: "nat \<Rightarrow> real" where
  "half_draws i = 1 / 2"

definition low_draws :: "nat \<Rightarrow> real" where
  "low_draws i = 0"

text \<open>
  A whole scan: a click, the answer, and the timer that hides the overlay (the fifth
  pending timer at that moment).
\<close>

definition scan_done :: "event list" where
  "scan_done = [MapClick 12.5 76.5, FetchSettled 0 ok_a half_draws, TimerFired 4]"

text \<open>More sample data: an answer with an error field, a failing answer, and two traces.\<close>

definition result_err :: analysis_result where
  "result_err = result_a\<lparr>error := Some ''quota exceeded''\<rparr>"

definition failed_500 :: response where
  "failed_500 = Replied False ''Internal Server Error'' (Inl [])"

definition cancelled_scan :: "event list" where
  "cancelled_scan = [MapClick 12.5 76.5, CancelClicked]"

definition superseded_scan :: "event list" where
  "superseded_scan =
     [MapClick 12.5 76.5, CancelClicked, MapClick 13 77, FetchSettled 1 ok_b half_draws]"

text \<open>
  The layer control, read off \<^verbatim>\<open>updateLayerControl\<close>: a key is offered
  when its URL is there and not empty; the calls of \<^verbatim>\<open>createToggle\<close> pass
  \<^verbatim>\<open>isDefault = true\<close> for two keys; \<open>new_tile\<close> is the layer
  \<^verbatim>\<open>toggleLayer\<close> makes.
\<close>

definition present :: "(layer_key \<rightharpoonup> string) \<Rightarrow> layer_key \<Rightarrow> bool" where
  "present ls k = (case ls k of Some url \<Rightarrow> url \<noteq> [] | None \<Rightarrow> False)"

definition default_on :: "layer_key \<Rightarrow> bool" where
  "default_on k = (k = Analytics \<or> k = Depth)"

definition new_tile :: "layer_key \<Rightarrow> string \<Rightarrow> map_layer" where
  "new_tile k url =
     TileLayer \<lparr>tile_url = url, tile_opacity = 0.9,
                tile_zIndex = Some (if k = Analytics then 10 else 5), tile_key = k\<rparr>"

text \<open>A toggle in the state its default asks for: checked and active, or neither.\<close>

definition as_default :: "toggle \<Rightarrow> bool" where
  "as_default t =
     (t_checked t = default_on (t_key t) \<and> (activeLayer t \<noteq> None) = default_on (t_key t))"

text \<open>
  The overlays on the map (none before the first result), and those of them that the
  toggle of key \<open>k\<close> made.
\<close>

definition group_of :: "state \<Rightarrow> layer_group" where
  "group_of s = (case overlayLayerGroup s of None \<Rightarrow> [] | Some g \<Rightarrow> g)"

definition made_by :: "layer_key \<Rightarrow> nat \<times> map_layer \<Rightarrow> bool" where
  "made_by k p = (case snd p of TileLayer t \<Rightarrow> tile_key t = k | Marker lat lng \<Rightarrow> False)"

definition instances :: "layer_key \<Rightarrow> state \<Rightarrow> layer_group" where
  "instances k s = filter (made_by k) (group_of s)"

text \<open>
  The invariant of the layer control: the toggles have distinct keys, the overlays have
  distinct stamps below the next one, and every overlay is the active layer of a toggle
  of its key. Besides, a control with toggles has a group.
\<close>

definition overlays_ok :: "toggle list \<Rightarrow> layer_group \<Rightarrow> nat \<Rightarrow> bool" where
  "overlays_ok ts g n =
     (distinct (map t_key ts) \<and> distinct (map fst g) \<and>
      (\<forall>p \<in> set g. fst p < n \<and>
         (\<exists>t \<in> set ts. activeLayer t = Some (fst p) \<and> made_by (t_key t) p)))"

definition lc_inv :: "state \<Rightarrow> bool" where
  "lc_inv s = overlays_ok (layerControl s) (group_of s) (next_stamp s)"

definition has_group :: "state \<Rightarrow> bool" where
  "has_group s = (layerControl s = [] \<or> overlayLayerGroup s \<noteq> None)"

definition layers_ok :: "state \<Rightarrow> bool" where
  "layers_ok s = (lc_inv s \<and> has_group s)"

text \<open>
  The same invariant for the export script, whose overlays share the group of the marker:
  every tile layer in the group is the layer of a toggle, under that toggle's stamp.
\<close>

definition group_ok_export :: "toggle_export list \<Rightarrow> layer_group \<Rightarrow> bool" where
  "group_ok_export ts g =
     (distinct (map (\<lambda>t. tile_key (x_layer t)) ts) \<and> distinct (map fst g) \<and>
      (\<forall>p \<in> set g. \<forall>l. snd p = TileLayer l \<longrightarrow>
         (\<exists>t \<in> set ts. x_stamp t = fst p \<and> x_layer t = l)))"

definition export_inv :: "state \<Rightarrow> bool" where
  "export_inv s = group_ok_export (layerControl_export s) (layerGroup s)"

section \<open>Fill percentage\<close>

lemmas model_defs =
  step_def onMapClick_def onDrawCreated_def startScanning_def cancelScanning_def setMode_def
  triggerAI_def showToast_def startScanning_settled_def checked_body_def apply_success_def
  report_failure_def updateMetrics_def animateValue_def updateCharts_def
  updateLayerControl_def createToggle_def toggleLayer_def on_toggle_change_def run_timer_def
  removeLayer_def init_def blank_def Let_def





lemma fillPct_result_a: "fillPct result_a = 85"
  by (simp add: result_a_def fillPct_def capacity_def Math_round_def)









text \<open>
  The export script agrees with \<^verbatim>\<open>app.js\<close> on a positive volume with a
  \<open>max_volume\<close> that is absent or not negative; a zero volume with no
  \<open>max_volume\<close> gives it \<^verbatim>\<open>NaN\<close>.
\<close>

lemma fillPct_export_agrees:
  assumes "0 < volume d" and "\<forall>m. max_volume d = Some m \<longrightarrow> 0 \<le> m"
  shows "fillPct_export d = Some (fillPct d)"
proof -
  have c: "capacity_export d = capacity d"
    using assms(2) by (auto simp: capacity_export_def capacity_def split: option.splits)
  have "0 < capacity d"
    using assms by (auto simp: capacity_def split: option.splits)
  then show ?thesis by (simp add: fillPct_export_def fillPct_def c)
qed

lemma fillPct_export_NaN:
  "fillPct_export (result_b\<lparr>volume := 0\<rparr>) = None"
  by (simp add: fillPct_export_def capacity_export_def result_b_def)

section \<open>What the layer control leaves alone\<close>

lemma olc_toggleLayer:
  "outside_layer_control (snd (toggleLayer c t s)) = outside_layer_control s"
  by (simp add: toggleLayer_def outside_layer_control_def Let_def split: option.splits)

lemma olc_createToggle:
  "outside_layer_control (createToggle ls k lab col dflt s) = outside_layer_control s"
proof -
  have "outside_layer_control (s1\<lparr>layerControl := ts\<rparr>) = outside_layer_control s1" for s1 ts
    by (simp add: outside_layer_control_def)
  then show ?thesis
    using olc_toggleLayer [of True _ s]
    by (auto simp: createToggle_def Let_def split: option.splits prod.splits)
       (metis snd_conv)
qed

lemma olc_updateLayerControl:
  "outside_layer_control (updateLayerControl ls s) = outside_layer_control s"
proof -
  have a: "outside_layer_control (s1\<lparr>layerControlPanel_hidden := h\<rparr>) = outside_layer_control s1"
    for s1 h
    by (simp add: outside_layer_control_def)
  have b: "outside_layer_control (s\<lparr>overlayLayerGroup := Some [], layerControl := []\<rparr>) =
           outside_layer_control s"
    by (simp add: outside_layer_control_def)
  show ?thesis
    unfolding updateLayerControl_def Let_def a olc_createToggle b ..
qed

lemma olc_change_toggle:
  "outside_layer_control (snd (change_toggle k c ts s)) = outside_layer_control s"
proof (induction ts)
  case Nil
  then show ?case by simp
next
  case (Cons t ts)
  then show ?case
    using olc_toggleLayer [of c "t\<lparr>t_checked := c\<rparr>" s]
    by (auto split: prod.splits)
qed

lemma olc_on_toggle_change:
  "outside_layer_control (on_toggle_change k c s) = outside_layer_control s"
proof -
  have "outside_layer_control (s1\<lparr>layerControl := ts\<rparr>) = outside_layer_control s1" for s1 ts
    by (simp add: outside_layer_control_def)
  then show ?thesis
    using olc_change_toggle [of k c "layerControl s" s]
    by (auto simp: on_toggle_change_def split: prod.splits)
qed

lemma olc_fields:
  assumes "outside_layer_control s' = outside_layer_control s"
  shows "isScanning s' = isScanning s" "overlay_display s' = overlay_display s"
    "scanController s' = scanController s" "aborted s' = aborted s"
    "trend_data s' = trend_data s" "seasonal_data s' = seasonal_data s"
    "pending s' = pending s" "timers s' = timers s"
    "toast_log s' = toast_log s" "toast_text s' = toast_text s"
    "scan_status s' = scan_status s" "scan_status_red s' = scan_status_red s"
    "layerGroup s' = layerGroup s" "mode s' = mode s"
    "metricArea s' = metricArea s" "metricVolume s' = metricVolume s"
    "fillPct_text s' = fillPct_text s"
proof -
  have "f (outside_layer_control s') = f (outside_layer_control s)" for f :: "state \<Rightarrow> 'a"
    using assms by simp
  note this [of isScanning] this [of overlay_display] this [of scanController]
    this [of aborted] this [of trend_data] this [of seasonal_data] this [of pending]
    this [of timers] this [of toast_log] this [of toast_text] this [of scan_status]
    this [of scan_status_red] this [of layerGroup] this [of mode] this [of metricArea]
    this [of metricVolume] this [of fillPct_text]
  then show "isScanning s' = isScanning s" "overlay_display s' = overlay_display s"
    "scanController s' = scanController s" "aborted s' = aborted s"
    "trend_data s' = trend_data s" "seasonal_data s' = seasonal_data s"
    "pending s' = pending s" "timers s' = timers s"
    "toast_log s' = toast_log s" "toast_text s' = toast_text s"
    "scan_status s' = scan_status s" "scan_status_red s' = scan_status_red s"
    "layerGroup s' = layerGroup s" "mode s' = mode s"
    "metricArea s' = metricArea s" "metricVolume s' = metricVolume s"
    "fillPct_text s' = fillPct_text s"
    by (simp_all add: outside_layer_control_def)
qed

lemma apply_success_fields:
  "isScanning (apply_success d rnd s) = isScanning s"
  "overlay_display (apply_success d rnd s) = overlay_display s"
  "scanController (apply_success d rnd s) = scanController s"
  "pending (apply_success d rnd s) = pending s"
  "trend_data (apply_success d rnd s) = map Some (trend_points (volume d) rnd)"
  "metricVolume (apply_success d rnd s) = Some (volume d)"
  "metricArea (apply_success d rnd s) = Some (area d)"
  "fillPct_text (apply_success d rnd s) = Some (Pct (fillPct d))"
  "layerGroup (apply_success d rnd s) = layerGroup s"
  by (simp_all add: apply_success_def Let_def showToast_def
        olc_fields [OF olc_updateLayerControl] updateCharts_def updateMetrics_def
        animateValue_def split: option.splits)

section \<open>States the page reaches\<close>

lemma steady_step: "steady s \<Longrightarrow> steady (step ev s)"
proof (cases ev)
  case (FetchSettled rid resp rnd)
  assume "steady s"
  then show ?thesis
    by (simp add: FetchSettled step_def steady_def startScanning_settled_def Let_def
          apply_success_fields report_failure_def showToast_def
          split: option.splits sum.splits)
next
  case (ToggleChanged k c)
  assume "steady s"
  then show ?thesis
    by (simp add: ToggleChanged step_def steady_def olc_fields [OF olc_on_toggle_change])
next
  case (TimerFired n)
  assume "steady s"
  then show ?thesis
    by (auto simp: TimerFired step_def steady_def run_timer_def onMapClick_def
          startScanning_def Let_def split: timer.splits)
qed (auto simp: step_def steady_def onMapClick_def onDrawCreated_def startScanning_def
       cancelScanning_def setMode_def triggerAI_def showToast_def Let_def)

lemma steady_run: "steady s \<Longrightarrow> steady (run evs s)"
  by (induction evs arbitrary: s) (simp_all add: steady_step)

lemma steady_init: "steady init"
  by (simp add: steady_def init_def blank_def setMode_def showToast_def)

section \<open>Cancelling with no scan active\<close>

text \<open>
  Claim C8, as amended. In a state the page reaches with \<open>isScanning\<close> false,
  \<^verbatim>\<open>cancelScanning\<close> is not a no-op: it empties the marker layer group and
  shows the informational toast \<open>Cancelled.\<close> (scheduling its hiding). It changes
  nothing else: overlay, flag, controller, metrics, charts, layer control, coordinates and
  pending requests stay as they are.
\<close>

theorem cancelScanning_when_idle:
  assumes "s = run evs init" and "\<not> isScanning s"
  shows "cancelScanning s =
           s\<lparr>layerGroup := [],
             toast_log := (T_info, ''Cancelled.'') # toast_log s,
             toast_text := ''Cancelled.'',
             toast_shown := True,
             timers := timers s @ [Hide_toast]\<rparr>"
proof -
  have "steady s" using assms(1) steady_run [OF steady_init] by simp
  with assms(2) have "scanController s = None" "\<not> overlay_display s"
    by (simp_all add: steady_def)
  with assms(2) show ?thesis
    by (cases s) (simp add: cancelScanning_def showToast_def)
qed

theorem cancelScanning_when_idle_witness:
  "\<not> isScanning (run scan_done init) \<and>
   cancelScanning (run scan_done init) =
     (run scan_done init)
       \<lparr>layerGroup := [],
        toast_log := (T_info, ''Cancelled.'') # toast_log (run scan_done init),
        toast_text := ''Cancelled.'',
        toast_shown := True,
        timers := timers (run scan_done init) @ [Hide_toast]\<rparr>"
proof -
  have h: "\<not> isScanning (run scan_done init)"
    by (simp add: scan_done_def ok_a_def result_a_def model_defs)
  show ?thesis
    using h cancelScanning_when_idle [OF refl h] by simp
qed

text \<open>
  The claim as stated fails after a finished scan: no scan is active, and cancelling
  removes the marker and replaces the toast.
\<close>

theorem cancel_idle_counterexample:
  "\<not> isScanning (run scan_done init) \<and>
   layerGroup (run scan_done init) = [(0, Marker 12.5 76.5)] \<and>
   layerGroup (cancelScanning (run scan_done init)) = [] \<and>
   toast_text (run scan_done init) = ''Analysis Complete.'' \<and>
   toast_text (cancelScanning (run scan_done init)) = ''Cancelled.'' \<and>
   cancelScanning (run scan_done init) \<noteq> run scan_done init"
proof -
  have a: "\<not> isScanning (run scan_done init) \<and>
   layerGroup (run scan_done init) = [(0, Marker 12.5 76.5)] \<and>
   layerGroup (cancelScanning (run scan_done init)) = [] \<and>
   toast_text (run scan_done init) = ''Analysis Complete.'' \<and>
   toast_text (cancelScanning (run scan_done init)) = ''Cancelled.''"
    by (simp add: scan_done_def ok_a_def result_a_def model_defs)
  then have "layerGroup (cancelScanning (run scan_done init)) \<noteq> layerGroup (run scan_done init)"
    by simp
  then have "cancelScanning (run scan_done init) \<noteq> run scan_done init" by metis
  with a show ?thesis by simp
qed

text \<open>
  The export script's \<^verbatim>\<open>cancelScanning\<close> has no test either: with no scan
  active it still shows the toast.
\<close>

lemma cancelScanning_export_when_idle:
  assumes "\<not> isScanning s" and "\<not> overlay_display s"
  shows "cancelScanning_export s =
           s\<lparr>toast_text := ''Cancelled.'', toast_shown := True,
             timers := timers s @ [Hide_toast]\<rparr>"
  using assms by (cases s) (simp add: cancelScanning_export_def showToast_export_def)

section \<open>Clicks while a scan is active\<close>



section \<open>The charts\<close>






section \<open>Failures of the analysis request\<close>

text \<open>
  Claim C5. When the settled request is a response with \<^verbatim>\<open>ok\<close> true
  whose body has a non-empty \<open>error\<close> field, the page ends in the state it ends in
  for a response that is not ok, but for the text of the error toast: an error toast is
  shown, the status text says \<open>Error.\<close> and is marked failed, and the metrics, the
  charts and the layer control are as before the settlement. The export script does the
  same with its own texts.
\<close>

theorem error_field_takes_failure_path:
  assumes "find (\<lambda>r. req_id r = rid) (pending s) = Some rq"
    and "error d = Some e" and "e \<noteq> []"
  shows "step (FetchSettled rid (Replied True st (Inr d)) rnd) s =
           (step (FetchSettled rid (Replied False st' body) rnd') s)
             \<lparr>toast_log := (T_error, ''Analysis Failed: '' @ e) # toast_log s,
              toast_text := ''Analysis Failed: '' @ e\<rparr> \<and>
         toast_log (step (FetchSettled rid (Replied False st' body) rnd') s) =
           (T_error, ''Analysis Failed: Analysis Service Failed'') # toast_log s \<and>
         scan_status (step (FetchSettled rid (Replied True st (Inr d)) rnd) s) = ''Error.'' \<and>
         scan_status_red (step (FetchSettled rid (Replied True st (Inr d)) rnd) s) \<and>
         displayed (step (FetchSettled rid (Replied True st (Inr d)) rnd) s) = displayed s \<and>
         step_export (FetchSettled rid (Replied True st (Inr d)) rnd) s =
           (step_export (FetchSettled rid (Replied False st' body) rnd') s)
             \<lparr>toast_text := ''Error: '' @ e\<rparr> \<and>
         scan_status (step_export (FetchSettled rid (Replied True st (Inr d)) rnd) s) = ''ERROR'' \<and>
         displayed (step_export (FetchSettled rid (Replied True st (Inr d)) rnd) s) = displayed s"
  using assms
  by (simp add: step_def startScanning_settled_def checked_body_def report_failure_def
        showToast_def Let_def displayed_def step_export_def startAnalysis_settled_def
        checked_body_export_def showToast_export_def)

theorem error_field_witness:
  "find (\<lambda>r. req_id r = 0) (pending (step (MapClick 12.5 76.5) init)) =
     Some \<lparr>req_id = 0, req_lat = 12.5, req_lng = 76.5, req_signal = None\<rparr> \<and>
   error result_err = Some ''quota exceeded'' \<and>
   toast_text (step (FetchSettled 0 (Replied True ''OK'' (Inr result_err)) half_draws)
                 (step (MapClick 12.5 76.5) init)) = ''Analysis Failed: quota exceeded'' \<and>
   scan_status_red (step (FetchSettled 0 (Replied True ''OK'' (Inr result_err)) half_draws)
                 (step (MapClick 12.5 76.5) init)) \<and>
   displayed (step (FetchSettled 0 (Replied True ''OK'' (Inr result_err)) half_draws)
                 (step (MapClick 12.5 76.5) init)) = displayed (step (MapClick 12.5 76.5) init) \<and>
   metricVolume (step (MapClick 12.5 76.5) init) = None"
proof -
  have p: "find (\<lambda>r. req_id r = 0) (pending (step (MapClick 12.5 76.5) init)) =
     Some \<lparr>req_id = 0, req_lat = 12.5, req_lng = 76.5, req_signal = None\<rparr>"
    by (simp add: model_defs)
  have e: "error result_err = Some ''quota exceeded''" "''quota exceeded'' \<noteq> []"
    by (simp_all add: result_err_def)
  have m: "metricVolume (step (MapClick 12.5 76.5) init) = None"
    by (simp add: model_defs)
  note t = error_field_takes_failure_path [OF p e, of "''OK''" half_draws
      "''Internal Server Error''" "Inl []" half_draws]
  let ?s = "step (MapClick 12.5 76.5) init"
  let ?x = "step (FetchSettled 0 (Replied True ''OK'' (Inr result_err)) half_draws) ?s"
  let ?y = "step (FetchSettled 0 (Replied False ''Internal Server Error'' (Inl [])) half_draws) ?s"
  from t have "?x = ?y\<lparr>toast_log := (T_error, ''Analysis Failed: '' @ ''quota exceeded'') # toast_log ?s,
              toast_text := ''Analysis Failed: '' @ ''quota exceeded''\<rparr>"
    by blast
  then have "toast_text ?x = toast_text (?y\<lparr>toast_log := (T_error, ''Analysis Failed: '' @ ''quota exceeded'') # toast_log ?s,
              toast_text := ''Analysis Failed: '' @ ''quota exceeded''\<rparr>)"
    by (rule arg_cong)
  then have a: "toast_text ?x = ''Analysis Failed: quota exceeded''" by simp
  from t have b: "scan_status_red ?x" by blast
  from t have c: "displayed ?x = displayed ?s" by blast
  show ?thesis using p e(1) m a b c by blast
qed

section \<open>Cancelled and superseded scans\<close>

text \<open>
  Two facts about every state the page reaches and every pending request: cancelling
  aborts nothing and leaves the requests pending, and a request that settles with a body
  free of errors has its result written, whatever happened since it was sent.
\<close>

lemma cancelScanning_signals_nothing:
  assumes "s = run evs init"
  shows "pending (cancelScanning s) = pending s \<and> aborted (cancelScanning s) = aborted s"
proof -
  have "steady s" using assms steady_run [OF steady_init] by simp
  then have "scanController s = None" by (simp add: steady_def)
  then show ?thesis by (simp add: cancelScanning_def showToast_def)
qed

lemma settlement_always_applied:
  assumes "find (\<lambda>r. req_id r = rid) (pending s) = Some rq"
    and "checked_body resp = Inr d"
  shows "metricVolume (step (FetchSettled rid resp rnd) s) = Some (volume d) \<and>
         metricArea (step (FetchSettled rid resp rnd) s) = Some (area d) \<and>
         fillPct_text (step (FetchSettled rid resp rnd) s) = Some (Pct (fillPct d))"
  using assms
  by (simp add: step_def startScanning_settled_def apply_success_fields Let_def)

text \<open>
  Claim C2, evaluated on the running code. Cancelling an active scan hides the overlay,
  resets the flag, clears the marker and shows the informational toast, all in the handler.
  It signals nothing to the request: no controller exists (the running declaration of
  \<^verbatim>\<open>startScanning\<close> makes none and passes no signal), so nothing is aborted
  and the request stays pending. When it settles, its result is applied, or its failure is
  reported with an error toast and the failed marking.
\<close>

theorem cancel_leaves_request_running:
  "isScanning (step (MapClick 12.5 76.5) init) \<and>
   \<not> overlay_display (run cancelled_scan init) \<and>
   \<not> isScanning (run cancelled_scan init) \<and>
   layerGroup (run cancelled_scan init) = [] \<and>
   toast_log (run cancelled_scan init) =
     [(T_info, ''Cancelled.''), (T_info, ''Click Mode: Click anywhere to analyze.'')] \<and>
   aborted (run cancelled_scan init) = [] \<and>
   pending (run cancelled_scan init) =
     [\<lparr>req_id = 0, req_lat = 12.5, req_lng = 76.5, req_signal = None\<rparr>] \<and>
   metricVolume (run cancelled_scan init) = None \<and>
   metricVolume (step (FetchSettled 0 ok_a half_draws) (run cancelled_scan init)) = Some 12.8 \<and>
   toast_text (step (FetchSettled 0 ok_a half_draws) (run cancelled_scan init)) =
     ''Analysis Complete.'' \<and>
   toast_log (step (FetchSettled 0 failed_500 half_draws) (run cancelled_scan init)) =
     [(T_error, ''Analysis Failed: Analysis Service Failed''), (T_info, ''Cancelled.''),
      (T_info, ''Click Mode: Click anywhere to analyze.'')] \<and>
   scan_status_red (step (FetchSettled 0 failed_500 half_draws) (run cancelled_scan init))"
  by (simp add: cancelled_scan_def model_defs ok_a_def result_a_def failed_500_def)

text \<open>
  Claim C1, evaluated on the running code. The result of a cancelled scan is applied when
  it arrives. And when a second scan was started after the cancellation and its result is
  on display, the late result of the first scan overwrites it.
\<close>

theorem stale_result_is_applied:
  "metricVolume (run cancelled_scan init) = None \<and>
   displayed (run (cancelled_scan @ [FetchSettled 0 ok_a half_draws]) init) \<noteq>
     displayed (run cancelled_scan init) \<and>
   metricVolume (run (cancelled_scan @ [FetchSettled 0 ok_a half_draws]) init) = Some 12.8 \<and>
   (currentLat (run superseded_scan init), currentLng (run superseded_scan init)) = (13, 77) \<and>
   map req_id (pending (run superseded_scan init)) = [0] \<and>
   metricVolume (run superseded_scan init) = Some 4.52 \<and>
   fillPct_text (run superseded_scan init) = Some (Pct 67) \<and>
   metricVolume (run (superseded_scan @ [FetchSettled 0 ok_a low_draws]) init) = Some 12.8 \<and>
   fillPct_text (run (superseded_scan @ [FetchSettled 0 ok_a low_draws]) init) = Some (Pct 85) \<and>
   map t_key (layerControl (run superseded_scan init)) = [Water_mask] \<and>
   map t_key (layerControl (run (superseded_scan @ [FetchSettled 0 ok_a low_draws]) init)) =
     [Analytics, Depth]"
  by (simp add: cancelled_scan_def superseded_scan_def model_defs ok_a_def ok_b_def
        result_a_def result_b_def displayed_def fillPct_def capacity_def Math_round_def)

text \<open>
  The first declaration of \<^verbatim>\<open>startScanning\<close> would drop the result of a
  cancelled scan: its request carries the signal that \<^verbatim>\<open>cancelScanning\<close>
  aborts, and its \<^verbatim>\<open>catch\<close> block only shows a toast.
\<close>

lemma first_declaration_drops_cancelled:
  "(let s1 = startScanning_first s;
        rq = last (pending s1);
        s2 = cancelScanning s1
    in fetch_outcome s2 rq resp = Abort_error \<and>
       displayed (startScanning_first_settled (fetch_outcome s2 rq resp) rnd
                    (s2\<lparr>pending := filter (\<lambda>r. req_id r \<noteq> req_id rq) (pending s2)\<rparr>)) =
       displayed s)"
  by (simp add: startScanning_first_def cancelScanning_def fetch_outcome_def
      startScanning_first_settled_def showToast_def displayed_def Let_def split: option.splits)

section \<open>Building the layer control\<close>

lemma addLayer_fresh: "i \<notin> fst ` set g \<Longrightarrow> addLayer i l g = g @ [(i, l)]"
  by (induction g) auto

lemma createToggle_eq:
  assumes "overlayLayerGroup s = Some g"
  shows "createToggle ls k lab col dflt s =
     (if present ls k then
        (if dflt then
           s\<lparr>overlayLayerGroup := Some (addLayer (next_stamp s) (new_tile k (the (ls k))) g),
             next_stamp := Suc (next_stamp s),
             layerControl := layerControl s @
               [\<lparr>t_key = k, t_label = lab, t_color = col, t_url = the (ls k),
                 t_checked = True, activeLayer = Some (next_stamp s)\<rparr>]\<rparr>
         else
           s\<lparr>layerControl := layerControl s @
               [\<lparr>t_key = k, t_label = lab, t_color = col, t_url = the (ls k),
                 t_checked = False, activeLayer = None\<rparr>]\<rparr>)
      else s)"
  using assms
  by (auto simp: createToggle_def present_def toggleLayer_def new_tile_def Let_def
      split: option.splits)

lemma updateLayerControl_analytics_depth:
  assumes "ls Analytics = Some ua" and "ua \<noteq> []" and "ls Depth = Some ud" and "ud \<noteq> []"
    and "ls Water_mask = None" and "ls Winter = None" and "ls Summer = None"
    and "ls Monsoon = None"
  shows "layerControl (updateLayerControl ls s) =
           [\<lparr>t_key = Analytics, t_label = ''Depth Contours'', t_color = ''#ffffff'',
             t_url = ua, t_checked = True, activeLayer = Some (next_stamp s)\<rparr>,
            \<lparr>t_key = Depth, t_label = ''Bathymetry'', t_color = ''#0077b6'',
             t_url = ud, t_checked = True, activeLayer = Some (Suc (next_stamp s))\<rparr>] \<and>
         overlayLayerGroup (updateLayerControl ls s) =
           Some [(next_stamp s, new_tile Analytics ua), (Suc (next_stamp s), new_tile Depth ud)]"
  using assms
  by (simp add: updateLayerControl_def createToggle_def toggleLayer_def Let_def new_tile_def)

lemma createToggle_step:
  assumes "overlayLayerGroup s \<noteq> None" and "dflt = default_on k"
  shows "overlayLayerGroup (createToggle ls k lab col dflt s) \<noteq> None"
    and "map t_key (layerControl (createToggle ls k lab col dflt s)) =
           map t_key (layerControl s) @ filter (present ls) [k]"
    and "list_all as_default (layerControl s) \<Longrightarrow>
           list_all as_default (layerControl (createToggle ls k lab col dflt s))"
proof -
  from assms(1) obtain g where g: "overlayLayerGroup s = Some g" by auto
  note e = createToggle_eq [OF g, of ls k lab col dflt]
  show "overlayLayerGroup (createToggle ls k lab col dflt s) \<noteq> None"
    by (simp add: e g)
  show "map t_key (layerControl (createToggle ls k lab col dflt s)) =
           map t_key (layerControl s) @ filter (present ls) [k]"
    by (simp add: e)
  show "list_all as_default (layerControl (createToggle ls k lab col dflt s))"
    if "list_all as_default (layerControl s)"
    using that unfolding e by (simp add: as_default_def assms(2))
qed

lemma updateLayerControl_general:
  "map t_key (layerControl (updateLayerControl ls s)) =
     filter (present ls) [Analytics, Depth, Water_mask, Winter, Summer, Monsoon] \<and>
   list_all as_default (layerControl (updateLayerControl ls s))"
proof -
  define s0 where "s0 = s\<lparr>overlayLayerGroup := Some [], layerControl := []\<rparr>"
  define s1 where "s1 = createToggle ls Analytics ''Depth Contours'' ''#ffffff'' True s0"
  define s2 where "s2 = createToggle ls Depth ''Bathymetry'' ''#0077b6'' True s1"
  define s3 where "s3 = createToggle ls Water_mask ''Water Extent'' ''#00FFFF'' False s2"
  define s4 where "s4 = createToggle ls Winter ''Winter Spread'' ''#0891b2'' False s3"
  define s5 where "s5 = createToggle ls Summer ''Summer Spread'' ''#fb923c'' False s4"
  define s6 where "s6 = createToggle ls Monsoon ''Monsoon Spread'' ''#16a34a'' False s5"
  have u: "updateLayerControl ls s = s6\<lparr>layerControlPanel_hidden := False\<rparr>"
    by (simp add: updateLayerControl_def Let_def s0_def s1_def s2_def s3_def s4_def s5_def s6_def)
  have d: "True = default_on Analytics" "True = default_on Depth"
    "False = default_on Water_mask" "False = default_on Winter"
    "False = default_on Summer" "False = default_on Monsoon"
    by (simp_all add: default_on_def)
  have p0: "overlayLayerGroup s0 \<noteq> None" "map t_key (layerControl s0) = []"
    "list_all as_default (layerControl s0)"
    by (simp_all add: s0_def)
  have p1: "overlayLayerGroup s1 \<noteq> None"
    "map t_key (layerControl s1) = filter (present ls) [Analytics]"
    "list_all as_default (layerControl s1)"
    unfolding s1_def using createToggle_step [OF p0(1) d(1)] p0(2,3) by simp_all
  have p2: "overlayLayerGroup s2 \<noteq> None"
    "map t_key (layerControl s2) = filter (present ls) [Analytics, Depth]"
    "list_all as_default (layerControl s2)"
    unfolding s2_def using createToggle_step [OF p1(1) d(2)] p1(2,3) by simp_all
  have p3: "overlayLayerGroup s3 \<noteq> None"
    "map t_key (layerControl s3) = filter (present ls) [Analytics, Depth, Water_mask]"
    "list_all as_default (layerControl s3)"
    unfolding s3_def using createToggle_step [OF p2(1) d(3)] p2(2,3) by simp_all
  have p4: "overlayLayerGroup s4 \<noteq> None"
    "map t_key (layerControl s4) = filter (present ls) [Analytics, Depth, Water_mask, Winter]"
    "list_all as_default (layerControl s4)"
    unfolding s4_def using createToggle_step [OF p3(1) d(4)] p3(2,3) by simp_all
  have p5: "overlayLayerGroup s5 \<noteq> None"
    "map t_key (layerControl s5) =
       filter (present ls) [Analytics, Depth, Water_mask, Winter, Summer]"
    "list_all as_default (layerControl s5)"
    unfolding s5_def using createToggle_step [OF p4(1) d(5)] p4(2,3) by simp_all
  have p6: "overlayLayerGroup s6 \<noteq> None"
    "map t_key (layerControl s6) =
       filter (present ls) [Analytics, Depth, Water_mask, Winter, Summer, Monsoon]"
    "list_all as_default (layerControl s6)"
    unfolding s6_def using createToggle_step [OF p5(1) d(6)] p5(2,3) by simp_all
  show ?thesis using p6 by (simp add: u)
qed

text \<open>
  Claim C7. \<^verbatim>\<open>updateLayerControl\<close> makes one toggle for each of the six keys
  whose URL is there (and not empty), in the order of its calls, and none for the others;
  a toggle is checked and active exactly when its key is \<open>analytics\<close> or
  \<open>depth\<close>. For a mapping with only these two keys it makes exactly two toggles,
  both checked, each with its overlay in the group.
\<close>

theorem updateLayerControl_toggles:
  "map t_key (layerControl (updateLayerControl ls s)) =
     filter (present ls) [Analytics, Depth, Water_mask, Winter, Summer, Monsoon] \<and>
   list_all as_default (layerControl (updateLayerControl ls s)) \<and>
   (ls Analytics = Some ua \<and> ua \<noteq> [] \<and> ls Depth = Some ud \<and> ud \<noteq> [] \<and>
    ls Water_mask = None \<and> ls Winter = None \<and> ls Summer = None \<and> ls Monsoon = None \<longrightarrow>
      layerControl (updateLayerControl ls s) =
        [\<lparr>t_key = Analytics, t_label = ''Depth Contours'', t_color = ''#ffffff'',
          t_url = ua, t_checked = True, activeLayer = Some (next_stamp s)\<rparr>,
         \<lparr>t_key = Depth, t_label = ''Bathymetry'', t_color = ''#0077b6'',
          t_url = ud, t_checked = True, activeLayer = Some (Suc (next_stamp s))\<rparr>] \<and>
      overlayLayerGroup (updateLayerControl ls s) =
        Some [(next_stamp s, new_tile Analytics ua), (Suc (next_stamp s), new_tile Depth ud)])"
  using updateLayerControl_general [of ls s] updateLayerControl_analytics_depth [of ls ua ud s]
  by blast

theorem updateLayerControl_toggles_witness:
  "layers result_a Analytics = Some ''https://tiles/analytics'' \<and>
   layers result_a Depth = Some ''https://tiles/depth'' \<and>
   layers result_a Water_mask = None \<and> layers result_a Winter = None \<and>
   layers result_a Summer = None \<and> layers result_a Monsoon = None \<and>
   map t_key (layerControl (updateLayerControl (layers result_a) init)) = [Analytics, Depth] \<and>
   map t_checked (layerControl (updateLayerControl (layers result_a) init)) = [True, True] \<and>
   map activeLayer (layerControl (updateLayerControl (layers result_a) init)) =
     [Some 0, Some 1] \<and>
   overlayLayerGroup (updateLayerControl (layers result_a) init) =
     Some [(0, new_tile Analytics ''https://tiles/analytics''),
           (1, new_tile Depth ''https://tiles/depth'')]"
proof -
  have l: "layers result_a Analytics = Some ''https://tiles/analytics''"
    "''https://tiles/analytics'' \<noteq> []"
    "layers result_a Depth = Some ''https://tiles/depth''"
    "''https://tiles/depth'' \<noteq> []"
    "layers result_a Water_mask = None" "layers result_a Winter = None"
    "layers result_a Summer = None" "layers result_a Monsoon = None"
    by (simp_all add: result_a_def)
  have n: "next_stamp init = 0"
    by (simp add: init_def blank_def setMode_def showToast_def)
  have "layerControl (updateLayerControl (layers result_a) init) =
        [\<lparr>t_key = Analytics, t_label = ''Depth Contours'', t_color = ''#ffffff'',
          t_url = ''https://tiles/analytics'', t_checked = True,
          activeLayer = Some (next_stamp init)\<rparr>,
         \<lparr>t_key = Depth, t_label = ''Bathymetry'', t_color = ''#0077b6'',
          t_url = ''https://tiles/depth'', t_checked = True,
          activeLayer = Some (Suc (next_stamp init))\<rparr>] \<and>
      overlayLayerGroup (updateLayerControl (layers result_a) init) =
        Some [(next_stamp init, new_tile Analytics ''https://tiles/analytics''),
              (Suc (next_stamp init), new_tile Depth ''https://tiles/depth'')]"
    using updateLayerControl_toggles [of "layers result_a" init "''https://tiles/analytics''"
        "''https://tiles/depth''"] l
    by blast
  then show ?thesis using l n by simp
qed

section \<open>One overlay per key\<close>

lemma filter_at_most_one:
  assumes "distinct xs" and "\<And>x y. x \<in> set xs \<Longrightarrow> y \<in> set xs \<Longrightarrow> P x \<Longrightarrow> P y \<Longrightarrow> x = y"
  shows "length (filter P xs) \<le> 1"
  using assms
proof (induction xs)
  case Nil
  then show ?case by simp
next
  case (Cons a xs)
  show ?case
  proof (cases "P a")
    case True
    have "filter P xs = []"
    proof (rule ccontr)
      assume "filter P xs \<noteq> []"
      then obtain y where "y \<in> set xs" "P y"
        by (metis filter_False)
      with True Cons.prems(2) [of a y] have "a = y" by simp
      with \<open>y \<in> set xs\<close> Cons.prems(1) show False by simp
    qed
    then show ?thesis using True by simp
  next
    case False
    then show ?thesis using Cons by simp
  qed
qed

lemma made_by_unique: "made_by k p \<Longrightarrow> made_by k' p \<Longrightarrow> k = k'"
  by (auto simp: made_by_def split: map_layer.splits)

lemma overlays_ok_one:
  assumes "overlays_ok ts g n"
  shows "length (filter (made_by k) g) \<le> 1"
proof (rule filter_at_most_one)
  show "distinct g" using assms by (simp add: overlays_ok_def distinct_map)
next
  fix p q
  assume pq: "p \<in> set g" "q \<in> set g" "made_by k p" "made_by k q"
  from assms pq obtain t u where
    t: "t \<in> set ts" "activeLayer t = Some (fst p)" "made_by (t_key t) p" and
    u: "u \<in> set ts" "activeLayer u = Some (fst q)" "made_by (t_key u) q"
    unfolding overlays_ok_def by blast
  have "t_key t = k" "t_key u = k"
    using t(3) u(3) pq(3,4) made_by_unique by blast+
  moreover have "inj_on t_key (set ts)"
    using assms by (simp add: overlays_ok_def distinct_map)
  ultimately have "t = u" using t(1) u(1) by (auto dest: inj_onD)
  then have "fst p = fst q" using t(2) u(2) by simp
  moreover have "inj_on fst (set g)"
    using assms by (simp add: overlays_ok_def distinct_map)
  ultimately show "p = q" using pq(1,2) by (auto dest: inj_onD)
qed

lemma lc_inv_one: "lc_inv s \<Longrightarrow> length (instances k s) \<le> 1"
  unfolding lc_inv_def instances_def by (rule overlays_ok_one)

lemma overlays_ok_replace:
  assumes ok: "overlays_ok (xs @ t # ys) g n"
    and key: "t_key t' = t_key t"
    and ids: "distinct (map fst g')"
    and le: "n \<le> n'"
    and own: "\<And>p. p \<in> set g' \<Longrightarrow>
        (fst p < n' \<and> activeLayer t' = Some (fst p) \<and> made_by (t_key t) p) \<or>
        (p \<in> set g \<and> (activeLayer t \<noteq> Some (fst p) \<or> activeLayer t' = activeLayer t))"
  shows "overlays_ok (xs @ t' # ys) g' n'"
  unfolding overlays_ok_def
proof (intro conjI ballI)
  show "distinct (map t_key (xs @ t' # ys))"
    using ok key by (simp add: overlays_ok_def)
  show "distinct (map fst g')" by (rule ids)
next
  fix p
  assume p: "p \<in> set g'"
  from own [OF p] show "fst p < n'"
  proof
    assume "p \<in> set g \<and> (activeLayer t \<noteq> Some (fst p) \<or> activeLayer t' = activeLayer t)"
    then have "fst p < n" using ok by (auto simp: overlays_ok_def)
    then show ?thesis using le by simp
  qed simp
  from own [OF p] show "\<exists>u \<in> set (xs @ t' # ys). activeLayer u = Some (fst p) \<and> made_by (t_key u) p"
  proof
    assume "fst p < n' \<and> activeLayer t' = Some (fst p) \<and> made_by (t_key t) p"
    then have "activeLayer t' = Some (fst p) \<and> made_by (t_key t') p" using key by simp
    then show ?thesis by auto
  next
    assume a: "p \<in> set g \<and> (activeLayer t \<noteq> Some (fst p) \<or> activeLayer t' = activeLayer t)"
    then obtain u where u: "u \<in> set (xs @ t # ys)" "activeLayer u = Some (fst p)"
      "made_by (t_key u) p"
      using ok unfolding overlays_ok_def by blast
    show ?thesis
    proof (cases "u = t")
      case True
      with a u have "activeLayer t' = Some (fst p) \<and> made_by (t_key t') p"
        using key by auto
      then show ?thesis by auto
    next
      case False
      with u(1) have "u \<in> set (xs @ t' # ys)" by auto
      with u(2,3) show ?thesis by blast
    qed
  qed
qed

lemma distinct_fst_removeLayer:
  "distinct (map fst g) \<Longrightarrow> distinct (map fst (removeLayer a g))"
  by (simp add: removeLayer_def distinct_map_filter)

lemma toggleLayer_eq:
  assumes "overlayLayerGroup s = Some g"
  shows "toggleLayer c t s =
     (if c then
        (t\<lparr>activeLayer := Some (next_stamp s)\<rparr>,
         s\<lparr>overlayLayerGroup := Some (addLayer (next_stamp s) (new_tile (t_key t) (t_url t))
              (case activeLayer t of Some a \<Rightarrow> removeLayer a g | None \<Rightarrow> g)),
           next_stamp := Suc (next_stamp s)\<rparr>)
      else
        (case activeLayer t of
           Some a \<Rightarrow> (t\<lparr>activeLayer := None\<rparr>, s\<lparr>overlayLayerGroup := Some (removeLayer a g)\<rparr>)
         | None \<Rightarrow> (t, s)))"
  using assms by (simp add: toggleLayer_def new_tile_def Let_def)

lemma overlays_ok_toggle:
  assumes ok: "overlays_ok (xs @ t # ys) (group_of s) (next_stamp s)"
    and r: "toggleLayer c (t\<lparr>t_checked := c\<rparr>) s = (t1, s1)"
  shows "overlays_ok (xs @ t1 # ys) (group_of s1) (next_stamp s1)"
proof (cases "overlayLayerGroup s")
  case None
  then have e: "t1 = t\<lparr>t_checked := c\<rparr>" "s1 = s" using r by (simp_all add: toggleLayer_def)
  show ?thesis unfolding e
    by (rule overlays_ok_replace [OF ok]) (use ok in \<open>auto simp: overlays_ok_def\<close>)
next
  case (Some g)
  then have g: "group_of s = g" by (simp add: group_of_def)
  note e = toggleLayer_eq [OF Some, of c "t\<lparr>t_checked := c\<rparr>"]
  have ids: "distinct (map fst g)" and lt: "\<And>p. p \<in> set g \<Longrightarrow> fst p < next_stamp s"
    using ok unfolding g overlays_ok_def by auto
  show ?thesis
  proof (cases c)
    case True
    define g1 where "g1 = (case activeLayer t of Some a \<Rightarrow> removeLayer a g | None \<Rightarrow> g)"
    have sub: "p \<in> set g \<and> activeLayer t \<noteq> Some (fst p)" if "p \<in> set g1" for p
      using that by (auto simp: g1_def removeLayer_def split: option.splits)
    have d1: "distinct (map fst g1)"
      using ids by (auto simp: g1_def distinct_fst_removeLayer split: option.splits)
    have fresh: "next_stamp s \<notin> fst ` set g1"
      using sub lt by fastforce
    have t1: "t1 = t\<lparr>t_checked := c, activeLayer := Some (next_stamp s)\<rparr>"
      and s1: "group_of s1 = g1 @ [(next_stamp s, new_tile (t_key t) (t_url t))]"
        "next_stamp s1 = Suc (next_stamp s)"
      using r True unfolding e by (auto simp: group_of_def g1_def addLayer_fresh [OF fresh [unfolded g1_def]])
    show ?thesis unfolding t1 s1
    proof (rule overlays_ok_replace [OF ok])
      show "distinct (map fst (g1 @ [(next_stamp s, new_tile (t_key t) (t_url t))]))"
        using d1 fresh by auto
      fix p
      assume "p \<in> set (g1 @ [(next_stamp s, new_tile (t_key t) (t_url t))])"
      then have "p \<in> set g1 \<or> p \<in> set [(next_stamp s, new_tile (t_key t) (t_url t))]"
        by auto
      then show "(fst p < Suc (next_stamp s) \<and>
          activeLayer (t\<lparr>t_checked := c, activeLayer := Some (next_stamp s)\<rparr>) = Some (fst p) \<and>
          made_by (t_key t) p) \<or>
         (p \<in> set (group_of s) \<and>
          (activeLayer t \<noteq> Some (fst p) \<or>
           activeLayer (t\<lparr>t_checked := c, activeLayer := Some (next_stamp s)\<rparr>) = activeLayer t))"
      proof
        assume "p \<in> set g1"
        then have "p \<in> set g \<and> activeLayer t \<noteq> Some (fst p)" by (rule sub)
        then show ?thesis by (simp add: g)
      next
        assume "p \<in> set [(next_stamp s, new_tile (t_key t) (t_url t))]"
        then have "p = (next_stamp s, new_tile (t_key t) (t_url t))" by simp
        then show ?thesis by (simp add: made_by_def new_tile_def)
      qed
    qed simp_all
  next
    case False
    show ?thesis
    proof (cases "activeLayer t")
      case None
      then have e1: "t1 = t\<lparr>t_checked := c\<rparr>" "s1 = s" using r False unfolding e by simp_all
      show ?thesis unfolding e1
        by (rule overlays_ok_replace [OF ok]) (use ok in \<open>auto simp: overlays_ok_def\<close>)
    next
      case (Some a)
      then have t1: "t1 = t\<lparr>t_checked := c, activeLayer := None\<rparr>"
        and s1: "group_of s1 = removeLayer a g" "next_stamp s1 = next_stamp s"
        using r False unfolding e by (auto simp: group_of_def)
      show ?thesis unfolding t1 s1
      proof (rule overlays_ok_replace [OF ok])
        show "distinct (map fst (removeLayer a g))" using ids by (rule distinct_fst_removeLayer)
        fix p
        assume "p \<in> set (removeLayer a g)"
        then show "(fst p < next_stamp s \<and>
          activeLayer (t\<lparr>t_checked := c, activeLayer := None\<rparr>) = Some (fst p) \<and>
          made_by (t_key t) p) \<or>
         (p \<in> set (group_of s) \<and>
          (activeLayer t \<noteq> Some (fst p) \<or>
           activeLayer (t\<lparr>t_checked := c, activeLayer := None\<rparr>) = activeLayer t))"
          using Some by (auto simp: g removeLayer_def)
      qed simp_all
    qed
  qed
qed

lemma change_toggle_ok:
  assumes "overlays_ok (pre @ ts) (group_of s) (next_stamp s)"
    and "change_toggle k c ts s = (ts', s')"
  shows "overlays_ok (pre @ ts') (group_of s') (next_stamp s')"
  using assms
proof (induction ts arbitrary: pre ts' s')
  case Nil
  then show ?case by simp
next
  case (Cons t ts)
  show ?case
  proof (cases "t_key t = k")
    case True
    obtain t1 s1 where r: "toggleLayer c (t\<lparr>t_checked := c\<rparr>) s = (t1, s1)"
      by (cases "toggleLayer c (t\<lparr>t_checked := c\<rparr>) s")
    with Cons.prems(2) True have "ts' = t1 # ts" "s' = s1" by simp_all
    then show ?thesis using overlays_ok_toggle [OF Cons.prems(1) r] by simp
  next
    case False
    obtain ts1 s1 where r: "change_toggle k c ts s = (ts1, s1)"
      by (cases "change_toggle k c ts s")
    with Cons.prems(2) False have e: "ts' = t # ts1" "s' = s1" by simp_all
    have "overlays_ok ((pre @ [t]) @ ts) (group_of s) (next_stamp s)"
      using Cons.prems(1) by simp
    from Cons.IH [OF this r] show ?thesis by (simp add: e)
  qed
qed

lemma lc_inv_on_toggle_change:
  assumes "lc_inv s"
  shows "lc_inv (on_toggle_change k c s)"
proof -
  obtain ts s1 where r: "change_toggle k c (layerControl s) s = (ts, s1)"
    by (cases "change_toggle k c (layerControl s) s")
  have "overlays_ok ([] @ ts) (group_of s1) (next_stamp s1)"
    by (rule change_toggle_ok [OF _ r]) (use assms in \<open>simp add: lc_inv_def\<close>)
  then show ?thesis
    by (simp add: on_toggle_change_def r lc_inv_def group_of_def)
qed

lemma lc_inv_createToggle:
  assumes g: "overlayLayerGroup s = Some g" and ok: "lc_inv s"
    and k: "k \<notin> set (map t_key (layerControl s))"
  shows "lc_inv (createToggle ls k lab col dflt s)"
proof -
  have ids: "distinct (map fst g)" and keys: "distinct (map t_key (layerControl s))"
    and own: "\<And>p. p \<in> set g \<Longrightarrow> fst p < next_stamp s \<and>
       (\<exists>t \<in> set (layerControl s). activeLayer t = Some (fst p) \<and> made_by (t_key t) p)"
    using ok g by (auto simp: lc_inv_def overlays_ok_def group_of_def)
  have fresh: "next_stamp s \<notin> fst ` set g" using own by fastforce
  show ?thesis
    unfolding createToggle_eq [OF g] lc_inv_def overlays_ok_def
    using ids keys k own fresh
    by (auto simp: group_of_def g addLayer_fresh made_by_def new_tile_def less_Suc_eq)
qed

lemma createToggle_chain:
  assumes "overlayLayerGroup s \<noteq> None" and "lc_inv s" and "k \<notin> set ks"
    and "map t_key (layerControl s) = filter (present ls) ks"
    and "dflt = default_on k"
  shows "overlayLayerGroup (createToggle ls k lab col dflt s) \<noteq> None"
    and "lc_inv (createToggle ls k lab col dflt s)"
    and "map t_key (layerControl (createToggle ls k lab col dflt s)) =
           filter (present ls) (ks @ [k])"
proof -
  from assms(1) obtain g where g: "overlayLayerGroup s = Some g" by auto
  have "k \<notin> set (map t_key (layerControl s))"
    unfolding assms(4) using assms(3) by simp
  then show "lc_inv (createToggle ls k lab col dflt s)"
    using lc_inv_createToggle [OF g assms(2)] by blast
  show "overlayLayerGroup (createToggle ls k lab col dflt s) \<noteq> None"
    by (rule createToggle_step(1) [OF assms(1) assms(5)])
  show "map t_key (layerControl (createToggle ls k lab col dflt s)) =
           filter (present ls) (ks @ [k])"
    unfolding createToggle_step(2) [OF assms(1) assms(5)] assms(4) by simp
qed

lemma lc_inv_updateLayerControl: "lc_inv (updateLayerControl ls s)"
proof -
  define s0 where "s0 = s\<lparr>overlayLayerGroup := Some [], layerControl := []\<rparr>"
  define s1 where "s1 = createToggle ls Analytics ''Depth Contours'' ''#ffffff'' True s0"
  define s2 where "s2 = createToggle ls Depth ''Bathymetry'' ''#0077b6'' True s1"
  define s3 where "s3 = createToggle ls Water_mask ''Water Extent'' ''#00FFFF'' False s2"
  define s4 where "s4 = createToggle ls Winter ''Winter Spread'' ''#0891b2'' False s3"
  define s5 where "s5 = createToggle ls Summer ''Summer Spread'' ''#fb923c'' False s4"
  define s6 where "s6 = createToggle ls Monsoon ''Monsoon Spread'' ''#16a34a'' False s5"
  have u: "updateLayerControl ls s = s6\<lparr>layerControlPanel_hidden := False\<rparr>"
    by (simp add: updateLayerControl_def Let_def s0_def s1_def s2_def s3_def s4_def s5_def s6_def)
  have d: "True = default_on Analytics" "True = default_on Depth"
    "False = default_on Water_mask" "False = default_on Winter"
    "False = default_on Summer" "False = default_on Monsoon"
    by (simp_all add: default_on_def)
  have p0: "overlayLayerGroup s0 \<noteq> None" "lc_inv s0"
    "map t_key (layerControl s0) = filter (present ls) []"
    by (simp_all add: s0_def lc_inv_def overlays_ok_def group_of_def)
  have p1: "overlayLayerGroup s1 \<noteq> None" "lc_inv s1"
    "map t_key (layerControl s1) = filter (present ls) ([] @ [Analytics])"
    unfolding s1_def by (rule createToggle_chain [OF p0(1,2) _ p0(3) d(1)]; simp)+
  have p2: "overlayLayerGroup s2 \<noteq> None" "lc_inv s2"
    "map t_key (layerControl s2) = filter (present ls) (([] @ [Analytics]) @ [Depth])"
    unfolding s2_def by (rule createToggle_chain [OF p1(1,2) _ p1(3) d(2)]; simp)+
  have p3: "overlayLayerGroup s3 \<noteq> None" "lc_inv s3"
    "map t_key (layerControl s3) =
       filter (present ls) ((([] @ [Analytics]) @ [Depth]) @ [Water_mask])"
    unfolding s3_def by (rule createToggle_chain [OF p2(1,2) _ p2(3) d(3)]; simp)+
  have p4: "overlayLayerGroup s4 \<noteq> None" "lc_inv s4"
    "map t_key (layerControl s4) =
       filter (present ls) (((([] @ [Analytics]) @ [Depth]) @ [Water_mask]) @ [Winter])"
    unfolding s4_def by (rule createToggle_chain [OF p3(1,2) _ p3(3) d(4)]; simp)+
  have p5: "overlayLayerGroup s5 \<noteq> None" "lc_inv s5"
    "map t_key (layerControl s5) =
       filter (present ls)
         ((((([] @ [Analytics]) @ [Depth]) @ [Water_mask]) @ [Winter]) @ [Summer])"
    unfolding s5_def by (rule createToggle_chain [OF p4(1,2) _ p4(3) d(5)]; simp)+
  have p6: "lc_inv s6"
    unfolding s6_def by (rule createToggle_chain(2) [OF p5(1,2) _ p5(3) d(6)]) simp
  then show ?thesis by (simp add: u lc_inv_def group_of_def)
qed

lemma toggleLayer_keeps_group:
  "overlayLayerGroup s \<noteq> None \<Longrightarrow> overlayLayerGroup (snd (toggleLayer c t s)) \<noteq> None"
  by (auto simp: toggleLayer_def Let_def split: option.splits)

lemma change_toggle_keeps_group:
  "overlayLayerGroup s \<noteq> None \<Longrightarrow> overlayLayerGroup (snd (change_toggle k c ts s)) \<noteq> None"
proof (induction ts)
  case Nil
  then show ?case by simp
next
  case (Cons t ts)
  then show ?case
    using toggleLayer_keeps_group [of s c "t\<lparr>t_checked := c\<rparr>"]
    by (auto split: prod.splits)
qed

lemma has_group_on_toggle_change:
  assumes "has_group s"
  shows "has_group (on_toggle_change k c s)"
proof (cases "layerControl s = []")
  case True
  then show ?thesis by (simp add: on_toggle_change_def has_group_def)
next
  case False
  with assms have "overlayLayerGroup s \<noteq> None" by (simp add: has_group_def)
  from change_toggle_keeps_group [OF this, of k c "layerControl s"]
  show ?thesis by (auto simp: on_toggle_change_def has_group_def split: prod.splits)
qed

lemma updateLayerControl_group: "overlayLayerGroup (updateLayerControl ls s) \<noteq> None"
proof -
  have "overlayLayerGroup (s\<lparr>overlayLayerGroup := Some [], layerControl := []\<rparr>) \<noteq> None"
    by simp
  then show ?thesis
    unfolding updateLayerControl_def Let_def
    by (simp add: createToggle_step(1) default_on_def)
qed

lemma layers_ok_frame:
  assumes "layers_ok s" and "layerControl s' = layerControl s"
    and "overlayLayerGroup s' = overlayLayerGroup s" and "next_stamp s \<le> next_stamp s'"
  shows "layers_ok s'"
proof -
  have "fst p < next_stamp s'" if "fst p < next_stamp s" for p :: "nat \<times> map_layer"
    using that assms(4) by simp
  then show ?thesis
    using assms(1-3)
    unfolding layers_ok_def lc_inv_def has_group_def overlays_ok_def group_of_def
    by auto
qed

lemma layers_ok_apply_success: "layers_ok (apply_success d rnd s)"
proof -
  let ?s4 = "updateLayerControl (layers d)
     (updateCharts (volume d) (seasonal d) rnd
       (updateMetrics d (s\<lparr>currentArea := area d, currentVol := volume d,
          state_layers := layers d\<rparr>)))"
  have "layers_ok ?s4"
    by (simp add: layers_ok_def lc_inv_updateLayerControl has_group_def updateLayerControl_group)
  then show ?thesis
    by (rule layers_ok_frame) (simp_all add: apply_success_def Let_def showToast_def)
qed

lemma layers_ok_onMapClick: "layers_ok s \<Longrightarrow> layers_ok (onMapClick lat lng d s)"
  by (erule layers_ok_frame) (simp_all add: onMapClick_def startScanning_def Let_def)

lemma layers_ok_step: "layers_ok s \<Longrightarrow> layers_ok (step ev s)"
proof (cases ev)
  case (FetchSettled rid resp rnd)
  assume a: "layers_ok s"
  show ?thesis
  proof (cases "find (\<lambda>r. req_id r = rid) (pending s)")
    case None
    then show ?thesis using a by (simp add: FetchSettled step_def)
  next
    case (Some rq)
    let ?s = "s\<lparr>pending := filter (\<lambda>r. req_id r \<noteq> rid) (pending s)\<rparr>"
    have b: "layers_ok ?s" using a by (rule layers_ok_frame) simp_all
    show ?thesis
    proof (cases "checked_body resp")
      case (Inl m)
      have "layers_ok (startScanning_settled resp rnd ?s)"
        using b by (rule layers_ok_frame)
          (simp_all add: startScanning_settled_def Inl report_failure_def showToast_def Let_def)
      then show ?thesis by (simp add: FetchSettled step_def Some)
    next
      case (Inr d)
      have "layers_ok (startScanning_settled resp rnd ?s)"
        using layers_ok_apply_success [of d rnd ?s]
        by (rule layers_ok_frame) (simp_all add: startScanning_settled_def Inr Let_def)
      then show ?thesis by (simp add: FetchSettled step_def Some)
    qed
  qed
next
  case (ToggleChanged k c)
  assume "layers_ok s"
  then show ?thesis
    by (simp add: ToggleChanged step_def layers_ok_def lc_inv_on_toggle_change
          has_group_on_toggle_change)
next
  case (TimerFired n)
  assume a: "layers_ok s"
  show ?thesis
  proof (cases "n < length (timers s)")
    case False
    then show ?thesis using a by (simp add: TimerFired step_def)
  next
    case True
    let ?s = "s\<lparr>timers := take n (timers s) @ drop (Suc n) (timers s)\<rparr>"
    have b: "layers_ok ?s" using a by (rule layers_ok_frame) simp_all
    have "layers_ok (run_timer t ?s)" for t
    proof (cases t)
      case Sim_click
      then show ?thesis using layers_ok_onMapClick [OF b] by (simp add: run_timer_def)
    qed (use b in \<open>auto simp: run_timer_def elim!: layers_ok_frame\<close>)
    then show ?thesis using True by (simp add: TimerFired step_def)
  qed
next
  case (MapClick lat lng)
  assume "layers_ok s"
  then show ?thesis by (simp add: MapClick step_def layers_ok_onMapClick)
next
  case (DrawCreated lat lng)
  assume a: "layers_ok s"
  have "layers_ok (s\<lparr>drawnItems := [(lat, lng)]\<rparr>)"
    using a by (rule layers_ok_frame) simp_all
  then show ?thesis by (simp add: DrawCreated step_def onDrawCreated_def layers_ok_onMapClick)
next
  case CancelClicked
  assume a: "layers_ok s"
  show ?thesis unfolding CancelClicked step_def
    using a by (simp, elim layers_ok_frame)
      (simp_all add: cancelScanning_def showToast_def Let_def split: option.splits)
next
  case (ModeClicked m)
  assume a: "layers_ok s"
  show ?thesis unfolding ModeClicked step_def
    using a by (simp, elim layers_ok_frame) (simp_all add: setMode_def showToast_def Let_def)
next
  case AIClicked
  assume a: "layers_ok s"
  show ?thesis unfolding AIClicked step_def
    using a by (simp, elim layers_ok_frame) (simp_all add: triggerAI_def)
qed

lemma layers_ok_run: "layers_ok s \<Longrightarrow> layers_ok (run evs s)"
  by (induction evs arbitrary: s) (simp_all add: layers_ok_step)

lemma layers_ok_init: "layers_ok init"
  by (simp add: layers_ok_def lc_inv_def overlays_ok_def group_of_def has_group_def
        init_def blank_def setMode_def showToast_def)

lemma toggleLayer_keeps_key:
  "t_key (fst (toggleLayer c t s)) = t_key t \<and> t_url (fst (toggleLayer c t s)) = t_url t"
  by (simp add: toggleLayer_def Let_def split: option.splits)

lemma change_toggle_finds:
  assumes "distinct (map t_key ts)" and "t \<in> set ts" and "t_key t = k"
  shows "snd (change_toggle k c ts s) = snd (toggleLayer c (t\<lparr>t_checked := c\<rparr>) s) \<and>
         (\<exists>t1 \<in> set (fst (change_toggle k c ts s)). t_key t1 = k \<and> t_url t1 = t_url t)"
  using assms
proof (induction ts)
  case Nil
  then show ?case by simp
next
  case (Cons u ts)
  show ?case
  proof (cases "t_key u = k")
    case True
    have "u = t"
    proof (rule ccontr)
      assume "u \<noteq> t"
      with Cons.prems(2) have "t \<in> set ts" by simp
      then have "k \<in> set (map t_key ts)" using Cons.prems(3) by force
      with True Cons.prems(1) show False by simp
    qed
    then show ?thesis
      using True toggleLayer_keeps_key [of c "t\<lparr>t_checked := c\<rparr>" s]
      by (simp add: split_beta)
  next
    case False
    with Cons.prems have "t \<in> set ts" "distinct (map t_key ts)" by auto
    from Cons.IH [OF this(2) this(1) Cons.prems(3)] False
    show ?thesis by (simp add: split_beta)
  qed
qed

lemma toggle_on_instances:
  assumes ok: "layers_ok s" and t: "t \<in> set (layerControl s)" and k: "t_key t = k"
  shows "instances k (on_toggle_change k True s) = [(next_stamp s, new_tile k (t_url t))]"
    and "next_stamp (on_toggle_change k True s) = Suc (next_stamp s)"
    and "\<exists>t1 \<in> set (layerControl (on_toggle_change k True s)). t_key t1 = k \<and> t_url t1 = t_url t"
proof -
  from ok t obtain g where g: "overlayLayerGroup s = Some g"
    by (auto simp: layers_ok_def has_group_def)
  have inv: "overlays_ok (layerControl s) g (next_stamp s)"
    using ok g by (simp add: layers_ok_def lc_inv_def group_of_def)
  then have keys: "distinct (map t_key (layerControl s))" by (simp add: overlays_ok_def)
  note f = change_toggle_finds [OF keys t k, of True s]
  define g1 where "g1 = (case activeLayer t of Some a \<Rightarrow> removeLayer a g | None \<Rightarrow> g)"
  have fresh: "next_stamp s \<notin> fst ` set g1"
    using inv by (fastforce simp: g1_def overlays_ok_def removeLayer_def split: option.splits)
  have s1: "snd (toggleLayer True (t\<lparr>t_checked := True\<rparr>) s) =
      s\<lparr>overlayLayerGroup := Some (g1 @ [(next_stamp s, new_tile k (t_url t))]),
        next_stamp := Suc (next_stamp s)\<rparr>"
    unfolding toggleLayer_eq [OF g]
    using addLayer_fresh [OF fresh] by (simp add: g1_def k)
  have e: "on_toggle_change k True s =
      s\<lparr>overlayLayerGroup := Some (g1 @ [(next_stamp s, new_tile k (t_url t))]),
        next_stamp := Suc (next_stamp s),
        layerControl := fst (change_toggle k True (layerControl s) s)\<rparr>"
    using f s1 by (simp add: on_toggle_change_def split_beta)
  have none: "filter (made_by k) g1 = []"
  proof (rule ccontr)
    assume "filter (made_by k) g1 \<noteq> []"
    then obtain p where p: "p \<in> set g1" "made_by k p" by (metis filter_False)
    then have pg: "p \<in> set g" and na: "activeLayer t \<noteq> Some (fst p)"
      by (auto simp: g1_def removeLayer_def split: option.splits)
    from inv pg obtain u where u: "u \<in> set (layerControl s)" "activeLayer u = Some (fst p)"
      "made_by (t_key u) p"
      unfolding overlays_ok_def by blast
    have "t_key u = k" using u(3) p(2) made_by_unique by blast
    moreover have "inj_on t_key (set (layerControl s))" using keys by (simp add: distinct_map)
    ultimately have "u = t" using u(1) t k by (auto dest: inj_onD)
    with u(2) na show False by simp
  qed
  show "instances k (on_toggle_change k True s) = [(next_stamp s, new_tile k (t_url t))]"
    by (simp add: e instances_def group_of_def none made_by_def new_tile_def)
  show "next_stamp (on_toggle_change k True s) = Suc (next_stamp s)"
    by (simp add: e)
  show "\<exists>t1 \<in> set (layerControl (on_toggle_change k True s)). t_key t1 = k \<and> t_url t1 = t_url t"
    using f by (simp add: e)
qed

text \<open>
  Claim C6. After any sequence of events from the start of the page (clicks, cancels,
  results, timers and toggle changes in any order), the shared overlay group holds at most
  one overlay made by the toggle of each key. In particular, switching a toggle on puts
  exactly one new overlay of its key in the group, and switching it on again without
  switching it off removes that overlay and puts another new one: there is one instance
  again, with a later stamp.
\<close>

theorem one_overlay_per_key:
  "length (instances k (run evs init)) \<le> 1 \<and>
   (\<forall>t \<in> set (layerControl (run evs init)). t_key t = k \<longrightarrow>
      instances k (step (ToggleChanged k True) (run evs init)) =
        [(next_stamp (run evs init), new_tile k (t_url t))] \<and>
      instances k (step (ToggleChanged k True) (step (ToggleChanged k True) (run evs init))) =
        [(Suc (next_stamp (run evs init)), new_tile k (t_url t))])"
proof -
  let ?s = "run evs init"
  have ok: "layers_ok ?s" by (rule layers_ok_run [OF layers_ok_init])
  then have "lc_inv ?s" by (simp add: layers_ok_def)
  then have a: "length (instances k ?s) \<le> 1" by (rule lc_inv_one)
  have b: "instances k (step (ToggleChanged k True) ?s) = [(next_stamp ?s, new_tile k (t_url t))] \<and>
      instances k (step (ToggleChanged k True) (step (ToggleChanged k True) ?s)) =
        [(Suc (next_stamp ?s), new_tile k (t_url t))]"
    if t: "t \<in> set (layerControl ?s)" "t_key t = k" for t
  proof -
    let ?s1 = "on_toggle_change k True ?s"
    note r = toggle_on_instances [OF ok t]
    have ok1: "layers_ok ?s1" using layers_ok_step [OF ok, of "ToggleChanged k True"]
      by (simp add: step_def)
    from r(3) obtain t1 where t1: "t1 \<in> set (layerControl ?s1)" "t_key t1 = k" "t_url t1 = t_url t"
      by blast
    note r1 = toggle_on_instances(1) [OF ok1 t1(1,2)]
    show ?thesis using r(1) r1 by (simp add: step_def r(2) t1(3))
  qed
  show ?thesis using a b by blast
qed

theorem one_overlay_per_key_witness:
  "map t_key (layerControl (run scan_done init)) = [Analytics, Depth] \<and>
   instances Analytics (run scan_done init) =
     [(1, new_tile Analytics ''https://tiles/analytics'')] \<and>
   instances Analytics (step (ToggleChanged Analytics True) (run scan_done init)) =
     [(3, new_tile Analytics ''https://tiles/analytics'')] \<and>
   instances Analytics
     (step (ToggleChanged Analytics True)
        (step (ToggleChanged Analytics True) (run scan_done init))) =
     [(4, new_tile Analytics ''https://tiles/analytics'')] \<and>
   length (instances Analytics
     (step (ToggleChanged Analytics True)
        (step (ToggleChanged Analytics True) (run scan_done init)))) \<le> 1"
proof -
  have e: "layerControl (run scan_done init) =
      [\<lparr>t_key = Analytics, t_label = ''Depth Contours'', t_color = ''#ffffff'',
        t_url = ''https://tiles/analytics'', t_checked = True, activeLayer = Some 1\<rparr>,
       \<lparr>t_key = Depth, t_label = ''Bathymetry'', t_color = ''#0077b6'',
        t_url = ''https://tiles/depth'', t_checked = True, activeLayer = Some 2\<rparr>]"
    "next_stamp (run scan_done init) = 3"
    "instances Analytics (run scan_done init) =
       [(1, new_tile Analytics ''https://tiles/analytics'')]"
    by (simp_all add: scan_done_def ok_a_def result_a_def model_defs instances_def
          group_of_def made_by_def new_tile_def)
  show ?thesis
    using one_overlay_per_key [of Analytics scan_done] e
    by simp
qed

section \<open>One overlay per key in the export script\<close>

text \<open>
  The export script makes each toggle's layer once and adds or removes that same layer, so
  its group, too, never holds two overlays of one key.
\<close>

lemma addLayer_set: "set (addLayer i l g) \<subseteq> insert (i, l) (set g)"
  by (induction g) auto

lemma addLayer_fst: "map fst (addLayer i l g) = (if i \<in> fst ` set g then map fst g else map fst g @ [i])"
  by (induction g) auto

lemma group_ok_export_one:
  assumes "group_ok_export ts g"
  shows "length (filter (made_by k) g) \<le> 1"
proof (rule filter_at_most_one)
  show "distinct g" using assms by (simp add: group_ok_export_def distinct_map)
next
  fix p q
  assume pq: "p \<in> set g" "q \<in> set g" "made_by k p" "made_by k q"
  from pq(3,4) obtain lp lq where l: "snd p = TileLayer lp" "tile_key lp = k"
    "snd q = TileLayer lq" "tile_key lq = k"
    by (auto simp: made_by_def split: map_layer.splits)
  from assms pq(1,2) l obtain t u where
    t: "t \<in> set ts" "x_stamp t = fst p" "x_layer t = lp" and
    u: "u \<in> set ts" "x_stamp u = fst q" "x_layer u = lq"
    unfolding group_ok_export_def by blast
  have "inj_on (\<lambda>t. tile_key (x_layer t)) (set ts)"
    using assms by (simp add: group_ok_export_def distinct_map)
  then have "t = u" using t u l by (auto dest: inj_onD)
  then have "fst p = fst q" using t(2) u(2) by simp
  moreover have "inj_on fst (set g)"
    using assms by (simp add: group_ok_export_def distinct_map)
  ultimately show "p = q" using pq(1,2) by (auto dest: inj_onD)
qed

lemma group_ok_export_replace:
  assumes ok: "group_ok_export (xs @ t # ys) g"
    and g': "g' = addLayer (x_stamp t) (TileLayer (x_layer t)) g \<or> g' = removeLayer (x_stamp t) g"
  shows "group_ok_export (xs @ t\<lparr>x_checked := c\<rparr> # ys) g'"
  unfolding group_ok_export_def
proof (intro conjI ballI allI impI)
  show "distinct (map (\<lambda>t. tile_key (x_layer t)) (xs @ t\<lparr>x_checked := c\<rparr> # ys))"
    using ok by (simp add: group_ok_export_def)
  show "distinct (map fst g')"
    using ok g' by (auto simp: group_ok_export_def addLayer_fst removeLayer_def distinct_map_filter)
next
  fix p l
  assume p: "p \<in> set g'" "snd p = TileLayer l"
  have "p = (x_stamp t, TileLayer (x_layer t)) \<or> p \<in> set g"
    using p(1) g' addLayer_set [of "x_stamp t" "TileLayer (x_layer t)" g]
    by (auto simp: removeLayer_def)
  then show "\<exists>u \<in> set (xs @ t\<lparr>x_checked := c\<rparr> # ys). x_stamp u = fst p \<and> x_layer u = l"
  proof
    assume "p = (x_stamp t, TileLayer (x_layer t))"
    with p(2) have "x_stamp (t\<lparr>x_checked := c\<rparr>) = fst p \<and> x_layer (t\<lparr>x_checked := c\<rparr>) = l"
      by simp
    then show ?thesis by auto
  next
    assume "p \<in> set g"
    with ok p(2) obtain u where u: "u \<in> set (xs @ t # ys)" "x_stamp u = fst p" "x_layer u = l"
      unfolding group_ok_export_def by blast
    show ?thesis
    proof (cases "u = t")
      case True
      with u have "x_stamp (t\<lparr>x_checked := c\<rparr>) = fst p \<and> x_layer (t\<lparr>x_checked := c\<rparr>) = l"
        by simp
      then show ?thesis by auto
    next
      case False
      with u(1) have "u \<in> set (xs @ t\<lparr>x_checked := c\<rparr> # ys)" by auto
      with u(2,3) show ?thesis by blast
    qed
  qed
qed

lemma change_toggle_export_ok:
  assumes "group_ok_export (pre @ ts) g"
    and "change_toggle_export k c ts g = (ts', g')"
  shows "group_ok_export (pre @ ts') g'"
  using assms
proof (induction ts arbitrary: pre ts' g')
  case Nil
  then show ?case by simp
next
  case (Cons t ts)
  show ?case
  proof (cases "tile_key (x_layer t) = k")
    case True
    with Cons.prems(2) have e: "ts' = t\<lparr>x_checked := c\<rparr> # ts" "g' = toggle_listener_export c t g"
      by simp_all
    show ?thesis unfolding e
      by (rule group_ok_export_replace [OF Cons.prems(1)])
        (simp add: toggle_listener_export_def)
  next
    case False
    obtain ts1 g1 where r: "change_toggle_export k c ts g = (ts1, g1)"
      by (cases "change_toggle_export k c ts g")
    with Cons.prems(2) False have e: "ts' = t # ts1" "g' = g1" by simp_all
    have "group_ok_export ((pre @ [t]) @ ts) g" using Cons.prems(1) by simp
    from Cons.IH [OF this r] show ?thesis by (simp add: e)
  qed
qed

lemma export_inv_toggle:
  assumes "export_inv s"
  shows "export_inv (on_toggle_change_export k c s)"
proof -
  obtain ts g where r: "change_toggle_export k c (layerControl_export s) (layerGroup s) = (ts, g)"
    by (cases "change_toggle_export k c (layerControl_export s) (layerGroup s)")
  have "group_ok_export ([] @ ts) g"
    by (rule change_toggle_export_ok [OF _ r]) (use assms in \<open>simp add: export_inv_def\<close>)
  then show ?thesis by (simp add: on_toggle_change_export_def r export_inv_def)
qed

lemma addLayerToggle_step:
  "layerGroup (addLayerToggle key ident name ls color s) = layerGroup s"
  "map (\<lambda>t. tile_key (x_layer t)) (layerControl_export (addLayerToggle key ident name ls color s)) =
     map (\<lambda>t. tile_key (x_layer t)) (layerControl_export s) @ filter (present ls) [key]"
  by (auto simp: addLayerToggle_def present_def split: option.splits)

lemma export_inv_updateLayers: "export_inv (updateLayers ls s)"
proof -
  have g: "layerGroup (updateLayers ls s) = [(next_stamp s, Marker (currentLat s) (currentLng s))]"
    by (simp add: updateLayers_def Let_def addLayerToggle_step)
  have k: "map (\<lambda>t. tile_key (x_layer t)) (layerControl_export (updateLayers ls s)) =
       filter (present ls) [Water_mask, Depth, Analytics, Winter, Summer, Monsoon]"
    by (simp add: updateLayers_def Let_def addLayerToggle_step)
  show ?thesis
    unfolding export_inv_def group_ok_export_def g k by simp
qed

lemma export_inv_frame:
  assumes "export_inv s" and "layerControl_export s' = layerControl_export s"
    and "layerGroup s' = layerGroup s \<or> (\<exists>i lat lng. layerGroup s' = [(i, Marker lat lng)])"
  shows "export_inv s'"
  using assms unfolding export_inv_def group_ok_export_def by auto

lemma export_inv_onMapClick: "export_inv s \<Longrightarrow> export_inv (onMapClick_export lat lng d s)"
  by (erule export_inv_frame) (auto simp: onMapClick_export_def startAnalysis_def Let_def)

lemma export_inv_step: "export_inv s \<Longrightarrow> export_inv (step_export ev s)"
proof (cases ev)
  case (FetchSettled rid resp rnd)
  assume a: "export_inv s"
  show ?thesis
  proof (cases "find (\<lambda>r. req_id r = rid) (pending s)")
    case None
    then show ?thesis using a by (simp add: FetchSettled step_export_def)
  next
    case (Some rq)
    let ?s = "s\<lparr>pending := filter (\<lambda>r. req_id r \<noteq> rid) (pending s)\<rparr>"
    have b: "export_inv ?s" using a by (rule export_inv_frame) simp_all
    show ?thesis
    proof (cases "checked_body_export resp")
      case (Inl m)
      have "export_inv (startAnalysis_settled resp ?s)"
        using b by (rule export_inv_frame)
          (simp_all add: startAnalysis_settled_def Inl showToast_export_def Let_def)
      then show ?thesis by (simp add: FetchSettled step_export_def Some)
    next
      case (Inr d)
      have "export_inv (startAnalysis_settled resp ?s)"
        using export_inv_updateLayers [of "layers d"
            "updateMetrics_export d (?s\<lparr>scan_status := ''Finalizing Report...''\<rparr>)"]
        by (rule export_inv_frame)
          (simp_all add: startAnalysis_settled_def Inr showToast_export_def Let_def)
      then show ?thesis by (simp add: FetchSettled step_export_def Some)
    qed
  qed
next
  case (ToggleChanged k c)
  assume "export_inv s"
  then show ?thesis by (simp add: ToggleChanged step_export_def export_inv_toggle)
next
  case (TimerFired n)
  assume a: "export_inv s"
  show ?thesis
  proof (cases "n < length (timers s)")
    case False
    then show ?thesis using a by (simp add: TimerFired step_export_def)
  next
    case True
    let ?s = "s\<lparr>timers := take n (timers s) @ drop (Suc n) (timers s)\<rparr>"
    have b: "export_inv ?s" using a by (rule export_inv_frame) simp_all
    have "export_inv (run_timer_export t ?s)" for t
      using b by (cases t) (auto simp: run_timer_export_def elim!: export_inv_frame)
    then show ?thesis using True by (simp add: TimerFired step_export_def)
  qed
next
  case (MapClick lat lng)
  assume "export_inv s"
  then show ?thesis by (simp add: MapClick step_export_def export_inv_onMapClick)
next
  case (DrawCreated lat lng)
  assume a: "export_inv s"
  have "export_inv (s\<lparr>drawnItems := [(lat, lng)]\<rparr>)"
    using a by (rule export_inv_frame) simp_all
  then show ?thesis
    by (simp add: DrawCreated step_export_def onDrawCreated_export_def export_inv_onMapClick)
next
  case CancelClicked
  assume a: "export_inv s"
  show ?thesis unfolding CancelClicked step_export_def
    using a by (simp, elim export_inv_frame)
      (simp_all add: cancelScanning_export_def showToast_export_def)
next
  case (ModeClicked m)
  assume a: "export_inv s"
  show ?thesis unfolding ModeClicked step_export_def
    using a by (simp, elim export_inv_frame)
      (simp_all add: setMode_export_def showToast_export_def Let_def)
next
  case AIClicked
  assume a: "export_inv s"
  then show ?thesis by (simp add: AIClicked step_export_def)
qed

lemma export_inv_run: "export_inv s \<Longrightarrow> export_inv (run_export evs s)"
  by (induction evs arbitrary: s) (simp_all add: export_inv_step)

lemma one_overlay_per_key_export:
  "length (filter (made_by k) (layerGroup (run_export evs init_export))) \<le> 1"
proof -
  have "export_inv init_export"
    by (simp add: export_inv_def group_ok_export_def init_export_def blank_def
          setMode_export_def showToast_export_def)
  then have "export_inv (run_export evs init_export)" by (rule export_inv_run)
  then show ?thesis unfolding export_inv_def by (rule group_ok_export_one)
qed

end
